theory Spec2Isabelle
  imports Main "HOL-Library.Word"
begin

unbundle bit_operations_syntax

section \<open>Bytes, exceptions and the struct primitives\<close>

text \<open>
  The codec of \<^verbatim>\<open>src/nfc/llcp/pdu.py\<close> is Python 2 (\<^verbatim>\<open>str(V)\<close> of a byte
  string, \<^verbatim>\<open>log.warn\<close>, \<^verbatim>\<open>def next\<close>). A buffer is a sequence of bytes; every
  number the codec computes is an unbounded Python integer, modelled as \<open>int\<close>
  (\<open>push_bit\<close>, \<open>drop_bit\<close>, \<open>AND\<close>, \<open>OR\<close> on \<open>int\<close> are Python's
  \<^verbatim>\<open><<\<close>, \<^verbatim>\<open>>>\<close>, \<^verbatim>\<open>&\<close>, \<^verbatim>\<open>|\<close>). Every exception the source can raise is a
  value: \<open>Inl\<close> of the exception's class. The messages of the exceptions and the
  \<^verbatim>\<open>log\<close> calls (diagnostics only) are left out.
\<close>

type_synonym byte = "8 word"
type_synonym bytes = "byte list"

datatype error =
    DecodeError | EncodeError | StructError | TypeError | AttributeError | IndexError

definition andthen :: "error + 'a \<Rightarrow> ('a \<Rightarrow> error + 'b) \<Rightarrow> error + 'b" where
  "andthen m f = (case m of Inl e \<Rightarrow> Inl e | Inr x \<Rightarrow> f x)"

text \<open>
  \<^verbatim>\<open>struct.unpack_from(fmt, data, offset)\<close>: a negative offset counts from the end of
  the buffer, and the call raises \<^verbatim>\<open>struct.error\<close> unless the buffer holds the
  format's \<open>n\<close> bytes from there.
\<close>

definition struct_read :: "nat \<Rightarrow> bytes \<Rightarrow> int \<Rightarrow> error + bytes" where
  "struct_read n data offset =
     (let len = int (length data);
          off = (if offset < 0 then offset + len else offset)
      in if off < 0 \<or> len - off < int n then Inl StructError
         else Inr (take n (drop (nat off) data)))"

definition unpack_from_B :: "bytes \<Rightarrow> int \<Rightarrow> error + int" where
  "unpack_from_B data offset =
     andthen (struct_read 1 data offset) (\<lambda>bs. Inr (uint (bs ! 0)))"

definition unpack_from_BB :: "bytes \<Rightarrow> int \<Rightarrow> error + int \<times> int" where
  "unpack_from_BB data offset =
     andthen (struct_read 2 data offset) (\<lambda>bs. Inr (uint (bs ! 0), uint (bs ! 1)))"

definition unpack_from_BBB :: "bytes \<Rightarrow> int \<Rightarrow> error + int \<times> int \<times> int" where
  "unpack_from_BBB data offset =
     andthen (struct_read 3 data offset)
       (\<lambda>bs. Inr (uint (bs ! 0), uint (bs ! 1), uint (bs ! 2)))"

definition unpack_from_BBBB :: "bytes \<Rightarrow> int \<Rightarrow> error + int \<times> int \<times> int \<times> int" where
  "unpack_from_BBBB data offset =
     andthen (struct_read 4 data offset)
       (\<lambda>bs. Inr (uint (bs ! 0), uint (bs ! 1), uint (bs ! 2), uint (bs ! 3)))"

definition unpack_from_H :: "bytes \<Rightarrow> int \<Rightarrow> error + int" where
  "unpack_from_H data offset =
     andthen (struct_read 2 data offset) (\<lambda>bs. Inr (256 * uint (bs ! 0) + uint (bs ! 1)))"

text \<open>
  \<^verbatim>\<open>struct.unpack_from('!B%ds' % k, data, offset)\<close>: a negative \<open>k\<close> is no struct
  format (\<^verbatim>\<open>struct.error\<close>); otherwise one byte and a string of \<open>k\<close> bytes.
\<close>

definition unpack_from_Bs :: "int \<Rightarrow> bytes \<Rightarrow> int \<Rightarrow> error + int \<times> bytes" where
  "unpack_from_Bs k data offset =
     (if k < 0 then Inl StructError
      else andthen (struct_read (1 + nat k) data offset) (\<lambda>bs. Inr (uint (bs ! 0), tl bs)))"

text \<open>
  \<^verbatim>\<open>struct.pack\<close> with \<^verbatim>\<open>B\<close> fields takes integers in 0..255, with an \<^verbatim>\<open>H\<close>
  field an integer in 0..65535 (big-endian), and raises \<^verbatim>\<open>struct.error\<close> otherwise.
\<close>

definition pack_B :: "int list \<Rightarrow> error + bytes" where
  "pack_B xs =
     (if list_all (\<lambda>x. 0 \<le> x \<and> x \<le> 255) xs then Inr (map word_of_int xs)
      else Inl StructError)"

definition pack_H :: "int \<Rightarrow> error + bytes" where
  "pack_H x =
     (if 0 \<le> x \<and> x \<le> 65535 then Inr [word_of_int (x div 256), word_of_int (x mod 256)]
      else Inl StructError)"

text \<open>Python's slice \<^verbatim>\<open>data[i:j]\<close> (indices clamped, never an error) and index \<^verbatim>\<open>data[i]\<close>.\<close>

definition slice_index :: "nat \<Rightarrow> int \<Rightarrow> nat" where
  "slice_index n i = (if i < 0 then nat (i + int n) else min (nat i) n)"

definition py_slice :: "'a list \<Rightarrow> int \<Rightarrow> int \<Rightarrow> 'a list" where
  "py_slice data i j =
     (let a = slice_index (length data) i; b = slice_index (length data) j
      in take (b - a) (drop a data))"

definition py_index :: "bytes \<Rightarrow> int \<Rightarrow> error + int" where
  "py_index data i =
     (let len = int (length data); k = (if i < 0 then i + len else i)
      in if k < 0 \<or> len \<le> k then Inl IndexError else Inr (uint (data ! nat k)))"

text \<open>
  The \<^verbatim>\<open>%\<close> operator with a tuple on the right raises \<^verbatim>\<open>TypeError\<close> unless the
  format string has as many conversion specifiers as the tuple has items.
\<close>

fun count_specs :: "string \<Rightarrow> nat" where
  "count_specs (c # d # s) =
     (if c = CHR ''%'' then (if d = CHR ''%'' then count_specs s else Suc (count_specs s))
      else count_specs (d # s))"
| "count_specs s = 0"

definition format_tuple :: "string \<Rightarrow> nat \<Rightarrow> error + unit" where
  "format_tuple fmt n = (if count_specs fmt = n then Inr () else Inl TypeError)"

section \<open>The TLV parameter codec (class Parameter)\<close>

definition VERSION :: int where [simp]: "VERSION = 1"
definition MIUX :: int where [simp]: "MIUX = 2"
definition WKS :: int where [simp]: "WKS = 3"
definition LTO :: int where [simp]: "LTO = 4"
definition RW :: int where [simp]: "RW = 5"
definition SN :: int where [simp]: "SN = 6"
definition OPT :: int where [simp]: "OPT = 7"
definition SDREQ :: int where [simp]: "SDREQ = 8"
definition SDRES :: int where [simp]: "SDRES = 9"
definition ECPK :: int where [simp]: "ECPK = 10"
definition RN :: int where [simp]: "RN = 11"

text \<open>
  The value \<^verbatim>\<open>V\<close> of a TLV: an integer, a pair of integers (VERSION's
  \<^verbatim>\<open>(major, minor)\<close>, SDRES's \<^verbatim>\<open>(tid, sap)\<close>), a byte string, or SDREQ's
  \<^verbatim>\<open>(tid, sn)\<close>.
\<close>

datatype tlv_value = VInt int | VPair int int | VBytes bytes | VReq int bytes

text \<open>
  \<^verbatim>\<open>Parameter.decode\<close>. The function has no \<^verbatim>\<open>return\<close> after its last
  \<^verbatim>\<open>if\<close>: for a type code outside 1..11 it returns Python's \<^verbatim>\<open>None\<close>, the
  \<open>Inr None\<close> of the model. A failed \<^verbatim>\<open>assert\<close> is re-raised as DecodeError.
\<close>

definition Parameter_decode ::
    "bytes \<Rightarrow> int \<Rightarrow> int \<Rightarrow> error + (int \<times> int \<times> tlv_value) option" where
  "Parameter_decode data offset sz =
     andthen (unpack_from_BB data offset) (\<lambda>(T, L).
       if sz - 2 < L then Inl DecodeError
       else if T = VERSION then
         (if L = 1 then andthen (unpack_from_B data (offset + 2))
            (\<lambda>version. Inr (Some (T, L, VPair (drop_bit 4 version) (version AND 15))))
          else Inl DecodeError)
       else if T = MIUX then
         (if L = 2 then andthen (unpack_from_H data (offset + 2))
            (\<lambda>miux. Inr (Some (T, L, VInt (miux AND 0x07FF))))
          else Inl DecodeError)
       else if T = WKS then
         (if L = 2 then andthen (unpack_from_H data (offset + 2))
            (\<lambda>wks. Inr (Some (T, L, VInt wks)))
          else Inl DecodeError)
       else if T = LTO then
         (if L = 1 then andthen (unpack_from_B data (offset + 2))
            (\<lambda>lto. Inr (Some (T, L, VInt lto)))
          else Inl DecodeError)
       else if T = RW then
         (if L = 1 then andthen (unpack_from_B data (offset + 2))
            (\<lambda>rw. Inr (Some (T, L, VInt rw)))
          else Inl DecodeError)
       else if T = SN then
         Inr (Some (T, L, VBytes (py_slice data (offset + 2) (offset + 2 + L))))
       else if T = OPT then
         (if L = 1 then andthen (unpack_from_B data (offset + 2))
            (\<lambda>opt. Inr (Some (T, L, VInt opt)))
          else Inl DecodeError)
       else if T = SDREQ then
         andthen (unpack_from_Bs (L - 1) data (offset + 2))
           (\<lambda>(tid, sn). Inr (Some (T, L, VReq tid sn)))
       else if T = SDRES then
         (if L = 2 then andthen (unpack_from_BB data (offset + 2))
            (\<lambda>(tid, sap). Inr (Some (T, L, VPair tid sap)))
          else Inl DecodeError)
       else if T = ECPK then
         Inr (Some (T, L, VBytes (py_slice data (offset + 2) (offset + 2 + L))))
       else if T = RN then
         Inr (Some (T, L, VBytes (py_slice data (offset + 2) (offset + 2 + L))))
       else Inr None)"

text \<open>
  \<^verbatim>\<open>Parameter.encode\<close>. Each \<^verbatim>\<open>raise EncodeError(fmt % (T, len(V), V))\<close> first
  evaluates its message: a format string with one \<^verbatim>\<open>%r\<close> applied to a tuple of
  three items. The model is typed: the codec passes \<open>V\<close> in the shape its type
  code calls for, and a \<open>V\<close> of another shape is mapped to \<^verbatim>\<open>TypeError\<close> or
  \<^verbatim>\<open>struct.error\<close>, never to EncodeError.
\<close>

definition Parameter_encode :: "int \<Rightarrow> tlv_value \<Rightarrow> error + bytes" where
  "Parameter_encode T V =
     (if T = VERSION then
        (case V of VPair major minor \<Rightarrow> pack_B [T, 1, push_bit 4 major OR minor]
         | _ \<Rightarrow> Inl TypeError)
      else if T = LTO \<or> T = RW \<or> T = OPT then
        (case V of VInt v \<Rightarrow> pack_B [T, 1, v] | _ \<Rightarrow> Inl StructError)
      else if T = MIUX \<or> T = WKS then
        (case V of
           VInt v \<Rightarrow> andthen (pack_B [T, 2]) (\<lambda>tl. andthen (pack_H v) (\<lambda>h. Inr (tl @ h)))
         | _ \<Rightarrow> Inl StructError)
      else if T = SN \<or> T = ECPK \<or> T = RN then
        (case V of
           VBytes v \<Rightarrow>
             if 255 < int (length v)
             then andthen (format_tuple ''can't encode TLV %r'' 3) (\<lambda>_. Inl EncodeError)
             else andthen (pack_B [T, int (length v)]) (\<lambda>tl. Inr (tl @ v))
         | _ \<Rightarrow> Inl TypeError)
      else if T = SDREQ then
        (case V of
           VReq tid sn \<Rightarrow>
             if 254 < int (length sn)
             then andthen (format_tuple ''can't encode TLV %r'' 3) (\<lambda>_. Inl EncodeError)
             else andthen (pack_B [T, 1 + int (length sn), tid]) (\<lambda>tl. Inr (tl @ sn))
         | _ \<Rightarrow> Inl TypeError)
      else if T = SDRES then
        (case V of VPair tid sap \<Rightarrow> pack_B [T, 2, tid, sap] | _ \<Rightarrow> Inl TypeError)
      else
        (case V of
           VInt v \<Rightarrow> Inl TypeError
         | _ \<Rightarrow> andthen (format_tuple ''unknown TLV %r'' 3) (\<lambda>_. Inl EncodeError)))"

section \<open>The classes\<close>

text \<open>
  The class statements of the source, as a table: every class has one base, so the
  method resolution order of a class is the chain of its bases.
  \<^verbatim>\<open>super(c, self).name\<close> looks \<open>name\<close> up in the classes that follow \<open>c\<close> in
  the order of \<open>self\<close>'s class.
\<close>

datatype cls =
    object_c | ProtocolDataUnit_c | NumberedProtocolDataUnit_c
  | Symmetry_c | ParameterExchange_c | AggregatedFrame_c | UnnumberedInformation_c
  | Connect_c | Disconnect_c | ConnectionComplete_c | DisconnectedMode_c
  | FrameReject_c | ServiceNameLookup_c | DataProtectionSetup_c
  | Information_c | ReceiveReady_c | ReceiveNotReady_c | UnknownProtocolDataUnit_c

definition mro :: "cls \<Rightarrow> cls list" where
  "mro c =
     (if c = object_c then [object_c]
      else if c = ProtocolDataUnit_c then [ProtocolDataUnit_c, object_c]
      else if c = NumberedProtocolDataUnit_c
        then [NumberedProtocolDataUnit_c, ProtocolDataUnit_c, object_c]
      else if c = Information_c \<or> c = ReceiveReady_c \<or> c = ReceiveNotReady_c
        then [c, NumberedProtocolDataUnit_c, ProtocolDataUnit_c, object_c]
      else [c, ProtocolDataUnit_c, object_c])"

definition super_classes :: "cls \<Rightarrow> cls \<Rightarrow> cls list" where
  "super_classes c self_class = tl (dropWhile (\<lambda>k. \<not> k = c) (mro self_class))"

text \<open>
  The \<^verbatim>\<open>__init__\<close> of the three classes that stand as a base, by the number of
  arguments it takes besides \<open>self\<close>: \<^verbatim>\<open>object.__init__\<close> takes none (called with
  more on an instance whose class defines \<^verbatim>\<open>__init__\<close>, it raises TypeError),
  \<^verbatim>\<open>ProtocolDataUnit.__init__(self, ptype, dsap, ssap)\<close> three,
  \<^verbatim>\<open>NumberedProtocolDataUnit.__init__(self, ptype, dsap, ssap, ns, nr)\<close> five.
\<close>

definition init_params :: "cls \<Rightarrow> nat" where
  "init_params c =
     (if c = ProtocolDataUnit_c then 3 else if c = NumberedProtocolDataUnit_c then 5 else 0)"

definition super_init :: "cls \<Rightarrow> cls \<Rightarrow> nat \<Rightarrow> error + unit" where
  "super_init c self_class n =
     (case super_classes c self_class of
        [] \<Rightarrow> Inl AttributeError
      | b # _ \<Rightarrow> if init_params b = n then Inr () else Inl TypeError)"

text \<open>
  \<^verbatim>\<open>__len__\<close> as the bases define it: \<^verbatim>\<open>NumberedProtocolDataUnit.__len__\<close> returns
  3; \<^verbatim>\<open>ProtocolDataUnit\<close> and \<^verbatim>\<open>object\<close> define none. Looking \<^verbatim>\<open>__len__\<close> up in
  a list of bases raises AttributeError when none of them defines it.
\<close>

definition base_len :: "cls \<Rightarrow> nat option" where
  "base_len c = (if c = NumberedProtocolDataUnit_c then Some 3 else None)"

definition inherited_len :: "cls list \<Rightarrow> error + nat" where
  "inherited_len cs =
     (case List.map_filter base_len cs of [] \<Rightarrow> Inl AttributeError | n # _ \<Rightarrow> Inr n)"

section \<open>PDU values\<close>

text \<open>
  One constructor per class, holding the instance attributes in the order of the
  class's \<^verbatim>\<open>__init__\<close>:
  \<^item> \<open>Symmetry dsap ssap\<close>;
  \<^item> \<open>ParameterExchange dsap ssap version miu wks lto lsc dpc\<close> (\<open>version\<close> is a
    pair or \<^verbatim>\<open>None\<close>);
  \<^item> \<open>AggregatedFrame dsap ssap aggregate\<close>;
  \<^item> \<open>UnnumberedInformation dsap ssap data\<close>;
  \<^item> \<open>Connect dsap ssap miu rw sn\<close>;
  \<^item> \<open>Disconnect dsap ssap\<close>;
  \<^item> \<open>ConnectionComplete dsap ssap miu rw\<close>;
  \<^item> \<open>DisconnectedMode dsap ssap reason\<close>;
  \<^item> \<open>FrameReject dsap ssap flags ptype ns nr vs vr vsa vra\<close>: the constructor
    first sets \<^verbatim>\<open>self.ptype\<close> to \<^verbatim>\<open>0b1000\<close> (through the base's \<^verbatim>\<open>__init__\<close>)
    and then assigns \<^verbatim>\<open>self.ptype = ptype\<close>, so the instance has the one attribute
    \<open>ptype\<close>, the rejected type;
  \<^item> \<open>ServiceNameLookup dsap ssap sdreq sdres\<close>;
  \<^item> \<open>DataProtectionSetup dsap ssap ecpk rn\<close> (each a byte string or \<^verbatim>\<open>None\<close>);
  \<^item> \<open>Information dsap ssap ns nr data\<close> (\<open>ns\<close> may be \<^verbatim>\<open>None\<close>);
  \<^item> \<open>ReceiveReady dsap ssap nr\<close> and \<open>ReceiveNotReady dsap ssap nr\<close>
    (\<open>ns\<close> is always \<^verbatim>\<open>None\<close>);
  \<^item> \<open>UnknownProtocolDataUnit ptype dsap ssap payload\<close>.
  The type code \<open>ptype\<close> of the other classes is the constant their \<^verbatim>\<open>__init__\<close>
  passes to the base.
\<close>

datatype pdu =
    Symmetry int int
  | ParameterExchange int int "(int \<times> int) option" int int int int int
  | AggregatedFrame int int "pdu list"
  | UnnumberedInformation int int bytes
  | Connect int int int int bytes
  | Disconnect int int
  | ConnectionComplete int int int int
  | DisconnectedMode int int int
  | FrameReject int int int int int int int int int int
  | ServiceNameLookup int int "(int \<times> bytes) list" "(int \<times> int) list"
  | DataProtectionSetup int int "bytes option" "bytes option"
  | Information int int "int option" int bytes
  | ReceiveReady int int int
  | ReceiveNotReady int int int
  | UnknownProtocolDataUnit int int int bytes

text \<open>
  \<^verbatim>\<open>UnknownProtocolDataUnit.__init__\<close> calls
  \<^verbatim>\<open>super(ProtocolDataUnit, self).__init__(ptype, dsap, ssap)\<close>: the lookup starts
  after \<^verbatim>\<open>ProtocolDataUnit\<close>. The constructors of the other classes call
  \<^verbatim>\<open>super(<their own class>, self).__init__\<close> with the arguments their base takes and
  cannot fail; they are the constructors of the datatype.
\<close>

definition UnknownProtocolDataUnit_init :: "int \<Rightarrow> int \<Rightarrow> int \<Rightarrow> bytes \<Rightarrow> error + pdu" where
  "UnknownProtocolDataUnit_init ptype dsap ssap payload =
     andthen (super_init ProtocolDataUnit_c UnknownProtocolDataUnit_c 3)
       (\<lambda>_. Inr (UnknownProtocolDataUnit ptype dsap ssap payload))"

section \<open>The header codec\<close>

definition decode_header :: "bytes \<Rightarrow> int \<Rightarrow> int \<Rightarrow> error + int \<times> int" where
  "decode_header data offset sz =
     (if sz < 2 then Inl DecodeError
      else andthen (unpack_from_BB data offset)
        (\<lambda>(dsap, ssap). Inr (drop_bit 2 dsap, ssap AND 63)))"

definition encode_header :: "int \<Rightarrow> int \<Rightarrow> int \<Rightarrow> error + bytes" where
  "encode_header ptype dsap ssap =
     (if 63 < dsap then Inl EncodeError
      else if 63 < ssap then Inl EncodeError
      else pack_H (push_bit 10 dsap OR push_bit 6 ptype OR ssap))"

text \<open>The header of the numbered PDUs; \<open>ns\<close> is \<^verbatim>\<open>None\<close> or an integer.\<close>

definition numbered_decode_header ::
    "bytes \<Rightarrow> int \<Rightarrow> int \<Rightarrow> error + int \<times> int \<times> int \<times> int" where
  "numbered_decode_header data offset sz =
     (if sz < 3 then Inl DecodeError
      else andthen (unpack_from_BBB data offset)
        (\<lambda>(dsap, ssap, sequence).
           Inr (drop_bit 2 dsap, ssap AND 63, drop_bit 4 sequence, sequence AND 15)))"

definition numbered_encode_header ::
    "int \<Rightarrow> int \<Rightarrow> int \<Rightarrow> int option \<Rightarrow> int \<Rightarrow> error + bytes" where
  "numbered_encode_header ptype dsap ssap ns nr =
     (if 63 < dsap then Inl EncodeError
      else if 63 < ssap then Inl EncodeError
      else if 15 < nr then Inl EncodeError
      else if (case ns of None \<Rightarrow> False | Some n \<Rightarrow> \<not> n = 0 \<and> 15 < n) then Inl EncodeError
      else andthen (pack_H (push_bit 10 dsap OR push_bit 6 ptype OR ssap))
        (\<lambda>h. andthen
           (pack_B [(case ns of None \<Rightarrow> 0 | Some n \<Rightarrow> if \<not> n = 0 then push_bit 4 n else 0) OR nr])
           (\<lambda>b. Inr (h @ b))))"

section \<open>Encoding\<close>

text \<open>\<^verbatim>\<open>if c: data += Parameter.encode(T, V)\<close>\<close>

definition add_tlv :: "bool \<Rightarrow> int \<Rightarrow> tlv_value \<Rightarrow> bytes \<Rightarrow> error + bytes" where
  "add_tlv c T V data =
     (if c then andthen (Parameter_encode T V) (\<lambda>tlv. Inr (data @ tlv)) else Inr data)"

definition Symmetry_encode :: "int \<Rightarrow> int \<Rightarrow> error + bytes" where
  "Symmetry_encode dsap ssap = encode_header 0 dsap ssap"

definition ParameterExchange_encode ::
    "int \<Rightarrow> int \<Rightarrow> (int \<times> int) option \<Rightarrow> int \<Rightarrow> int \<Rightarrow> int \<Rightarrow> int \<Rightarrow> int \<Rightarrow> error + bytes" where
  "ParameterExchange_encode dsap ssap version miu wks lto lsc dpc =
     andthen (encode_header 1 dsap ssap) (\<lambda>data.
     andthen (case version of None \<Rightarrow> Inr data
              | Some (major, minor) \<Rightarrow> add_tlv True VERSION (VPair major minor) data) (\<lambda>data.
     andthen (add_tlv (\<not> miu = 0 \<and> 128 < miu) MIUX (VInt (miu - 128)) data) (\<lambda>data.
     andthen (add_tlv (\<not> wks = 0) WKS (VInt wks) data) (\<lambda>data.
     andthen (add_tlv (\<not> lto = 0 \<and> \<not> lto = 100) LTO (VInt (lto div 10)) data) (\<lambda>data.
     add_tlv (\<not> (lsc = 0 \<and> dpc = 0)) OPT (VInt (push_bit 2 dpc OR lsc)) data)))))"

definition UnnumberedInformation_encode :: "int \<Rightarrow> int \<Rightarrow> bytes \<Rightarrow> error + bytes" where
  "UnnumberedInformation_encode dsap ssap data =
     andthen (encode_header 3 dsap ssap) (\<lambda>h. Inr (h @ data))"

definition Connect_encode :: "int \<Rightarrow> int \<Rightarrow> int \<Rightarrow> int \<Rightarrow> bytes \<Rightarrow> error + bytes" where
  "Connect_encode dsap ssap miu rw sn =
     andthen (encode_header 4 dsap ssap) (\<lambda>data.
     andthen (add_tlv (\<not> miu = 0 \<and> 128 < miu) MIUX (VInt (miu - 128)) data) (\<lambda>data.
     andthen (add_tlv (\<not> rw = 0 \<and> \<not> rw = 1) RW (VInt rw) data) (\<lambda>data.
     add_tlv (\<not> sn = []) SN (VBytes sn) data)))"

definition Disconnect_encode :: "int \<Rightarrow> int \<Rightarrow> error + bytes" where
  "Disconnect_encode dsap ssap = encode_header 5 dsap ssap"

definition ConnectionComplete_encode :: "int \<Rightarrow> int \<Rightarrow> int \<Rightarrow> int \<Rightarrow> error + bytes" where
  "ConnectionComplete_encode dsap ssap miu rw =
     andthen (encode_header 6 dsap ssap) (\<lambda>data.
     andthen (add_tlv (\<not> miu = 0 \<and> 128 < miu) MIUX (VInt (miu - 128)) data) (\<lambda>data.
     add_tlv (\<not> rw = 0 \<and> \<not> rw = 1) RW (VInt rw) data))"

definition DisconnectedMode_encode :: "int \<Rightarrow> int \<Rightarrow> int \<Rightarrow> error + bytes" where
  "DisconnectedMode_encode dsap ssap reason =
     andthen (encode_header 7 dsap ssap) (\<lambda>h. andthen (pack_B [reason]) (\<lambda>r. Inr (h @ r)))"

text \<open>
  \<^verbatim>\<open>FrameReject.encode\<close>: \<^verbatim>\<open>encode_header\<close> reads \<^verbatim>\<open>self.ptype\<close>, the attribute the
  constructor has overwritten with the rejected type.
\<close>

definition FrameReject_encode ::
    "int \<Rightarrow> int \<Rightarrow> int \<Rightarrow> int \<Rightarrow> int \<Rightarrow> int \<Rightarrow> int \<Rightarrow> int \<Rightarrow> int \<Rightarrow> int \<Rightarrow> error + bytes" where
  "FrameReject_encode dsap ssap flags ptype ns nr vs vr vsa vra =
     andthen (encode_header ptype dsap ssap) (\<lambda>h.
     andthen (pack_B [push_bit 4 flags OR ptype, push_bit 4 ns OR nr,
                      push_bit 4 vs OR vr, push_bit 4 vsa OR vra]) (\<lambda>b. Inr (h @ b)))"

text \<open>\<^verbatim>\<open>for x in xs: data += Parameter.encode(T, x)\<close>\<close>

fun add_tlvs :: "int \<Rightarrow> tlv_value list \<Rightarrow> bytes \<Rightarrow> error + bytes" where
  "add_tlvs T [] data = Inr data"
| "add_tlvs T (V # Vs) data =
     (case Parameter_encode T V of Inl e \<Rightarrow> Inl e | Inr tlv \<Rightarrow> add_tlvs T Vs (data @ tlv))"

definition ServiceNameLookup_encode ::
    "int \<Rightarrow> int \<Rightarrow> (int \<times> bytes) list \<Rightarrow> (int \<times> int) list \<Rightarrow> error + bytes" where
  "ServiceNameLookup_encode dsap ssap sdreq sdres =
     andthen (encode_header 9 dsap ssap) (\<lambda>data.
     andthen (add_tlvs SDRES (map (\<lambda>(tid, sap). VPair tid sap) sdres) data) (\<lambda>data.
     add_tlvs SDREQ (map (\<lambda>(tid, sn). VReq tid sn) sdreq) data))"

definition DataProtectionSetup_encode ::
    "int \<Rightarrow> int \<Rightarrow> bytes option \<Rightarrow> bytes option \<Rightarrow> error + bytes" where
  "DataProtectionSetup_encode dsap ssap ecpk rn =
     andthen (encode_header 10 dsap ssap) (\<lambda>data.
     andthen (case ecpk of None \<Rightarrow> Inr data
              | Some v \<Rightarrow> add_tlv (\<not> v = []) ECPK (VBytes v) data) (\<lambda>data.
     (case rn of None \<Rightarrow> Inr data | Some v \<Rightarrow> add_tlv (\<not> v = []) RN (VBytes v) data)))"

definition Information_encode ::
    "int \<Rightarrow> int \<Rightarrow> int option \<Rightarrow> int \<Rightarrow> bytes \<Rightarrow> error + bytes" where
  "Information_encode dsap ssap ns nr data =
     andthen (numbered_encode_header 12 dsap ssap ns nr) (\<lambda>h. Inr (h @ data))"

definition ReceiveReady_encode :: "int \<Rightarrow> int \<Rightarrow> int \<Rightarrow> error + bytes" where
  "ReceiveReady_encode dsap ssap nr = numbered_encode_header 13 dsap ssap None nr"

definition ReceiveNotReady_encode :: "int \<Rightarrow> int \<Rightarrow> int \<Rightarrow> error + bytes" where
  "ReceiveNotReady_encode dsap ssap nr = numbered_encode_header 14 dsap ssap None nr"

definition UnknownProtocolDataUnit_encode :: "int \<Rightarrow> int \<Rightarrow> int \<Rightarrow> bytes \<Rightarrow> error + bytes" where
  "UnknownProtocolDataUnit_encode ptype dsap ssap payload =
     andthen (encode_header ptype dsap ssap) (\<lambda>h. Inr (h @ payload))"

text \<open>
  \<^verbatim>\<open>AggregatedFrame.encode\<close>: the header, then every nested PDU is encoded (the list
  comprehension), then each encoding is appended behind its length.
\<close>

fun AggregatedFrame_join :: "bytes \<Rightarrow> bytes list \<Rightarrow> error + bytes" where
  "AggregatedFrame_join data [] = Inr data"
| "AggregatedFrame_join data (encoded_pdu # rest) =
     (case pack_H (int (length encoded_pdu)) of
        Inl e \<Rightarrow> Inl e
      | Inr l \<Rightarrow> AggregatedFrame_join (data @ l @ encoded_pdu) rest)"

text \<open>
  \<^verbatim>\<open>encode(pdu)\<close>, that is \<^verbatim>\<open>pdu.encode()\<close>: the method of the value's class. (The
  entry point's \<^verbatim>\<open>isinstance\<close> check holds of every value of type \<open>pdu\<close>.)
\<close>

fun encode :: "pdu \<Rightarrow> error + bytes"
  and encode_aggregate :: "pdu list \<Rightarrow> error + bytes list" where
  "encode (Symmetry dsap ssap) = Symmetry_encode dsap ssap"
| "encode (ParameterExchange dsap ssap version miu wks lto lsc dpc) =
     ParameterExchange_encode dsap ssap version miu wks lto lsc dpc"
| "encode (AggregatedFrame dsap ssap aggregate) =
     (case encode_header 2 dsap ssap of
        Inl e \<Rightarrow> Inl e
      | Inr data \<Rightarrow>
          (case encode_aggregate aggregate of
             Inl e \<Rightarrow> Inl e
           | Inr encoded \<Rightarrow> AggregatedFrame_join data encoded))"
| "encode (UnnumberedInformation dsap ssap data) = UnnumberedInformation_encode dsap ssap data"
| "encode (Connect dsap ssap miu rw sn) = Connect_encode dsap ssap miu rw sn"
| "encode (Disconnect dsap ssap) = Disconnect_encode dsap ssap"
| "encode (ConnectionComplete dsap ssap miu rw) = ConnectionComplete_encode dsap ssap miu rw"
| "encode (DisconnectedMode dsap ssap reason) = DisconnectedMode_encode dsap ssap reason"
| "encode (FrameReject dsap ssap flags ptype ns nr vs vr vsa vra) =
     FrameReject_encode dsap ssap flags ptype ns nr vs vr vsa vra"
| "encode (ServiceNameLookup dsap ssap sdreq sdres) =
     ServiceNameLookup_encode dsap ssap sdreq sdres"
| "encode (DataProtectionSetup dsap ssap ecpk rn) = DataProtectionSetup_encode dsap ssap ecpk rn"
| "encode (Information dsap ssap ns nr data) = Information_encode dsap ssap ns nr data"
| "encode (ReceiveReady dsap ssap nr) = ReceiveReady_encode dsap ssap nr"
| "encode (ReceiveNotReady dsap ssap nr) = ReceiveNotReady_encode dsap ssap nr"
| "encode (UnknownProtocolDataUnit ptype dsap ssap payload) =
     UnknownProtocolDataUnit_encode ptype dsap ssap payload"
| "encode_aggregate [] = Inr []"
| "encode_aggregate (p # ps) =
     (case encode p of
        Inl e \<Rightarrow> Inl e
      | Inr b \<Rightarrow> (case encode_aggregate ps of Inl e \<Rightarrow> Inl e | Inr bs \<Rightarrow> Inr (b # bs)))"

section \<open>Encoded length (\<^verbatim>\<open>__len__\<close>)\<close>

text \<open>
  \<^verbatim>\<open>len(pdu)\<close>: the \<^verbatim>\<open>__len__\<close> of the value's class. \<^verbatim>\<open>ReceiveReady\<close> and
  \<^verbatim>\<open>ReceiveNotReady\<close> define none and inherit it.
  \<^verbatim>\<open>UnknownProtocolDataUnit.__len__\<close> adds \<^verbatim>\<open>len(self.payload)\<close> to
  \<^verbatim>\<open>super(UnknownProtocolDataUnit, self).__len__()\<close>.
\<close>

definition tlv_len :: "bool \<Rightarrow> nat \<Rightarrow> nat" where
  "tlv_len c n = (if c then n else 0)"

definition ParameterExchange_len ::
    "(int \<times> int) option \<Rightarrow> int \<Rightarrow> int \<Rightarrow> int \<Rightarrow> int \<Rightarrow> int \<Rightarrow> nat" where
  "ParameterExchange_len version miu wks lto lsc dpc =
     2 + (case version of None \<Rightarrow> 0 | Some v \<Rightarrow> 3)
       + tlv_len (\<not> miu = 0 \<and> 128 < miu) 4
       + tlv_len (\<not> wks = 0) 4
       + tlv_len (\<not> lto = 0 \<and> \<not> lto = 100) 3
       + tlv_len (\<not> (lsc = 0 \<and> dpc = 0)) 3"

definition Connect_len :: "int \<Rightarrow> int \<Rightarrow> bytes \<Rightarrow> nat" where
  "Connect_len miu rw sn =
     2 + tlv_len (\<not> miu = 0 \<and> 128 < miu) 4
       + tlv_len (\<not> rw = 0 \<and> \<not> rw = 1) 3
       + tlv_len (\<not> sn = []) (2 + length sn)"

definition ConnectionComplete_len :: "int \<Rightarrow> int \<Rightarrow> nat" where
  "ConnectionComplete_len miu rw =
     2 + tlv_len (\<not> miu = 0 \<and> 128 < miu) 4 + tlv_len (\<not> rw = 0 \<and> \<not> rw = 1) 3"

definition ServiceNameLookup_len :: "(int \<times> bytes) list \<Rightarrow> (int \<times> int) list \<Rightarrow> nat" where
  "ServiceNameLookup_len sdreq sdres =
     2 + length sdres * 4 + sum_list (map (\<lambda>r. 3 + length (snd r)) sdreq)"

definition DataProtectionSetup_len :: "bytes option \<Rightarrow> bytes option \<Rightarrow> nat" where
  "DataProtectionSetup_len ecpk rn =
     2 + (case ecpk of None \<Rightarrow> 0 | Some v \<Rightarrow> tlv_len (\<not> v = []) (2 + length v))
       + (case rn of None \<Rightarrow> 0 | Some v \<Rightarrow> tlv_len (\<not> v = []) (2 + length v))"

definition UnknownProtocolDataUnit_len :: "bytes \<Rightarrow> error + nat" where
  "UnknownProtocolDataUnit_len payload =
     andthen (inherited_len (super_classes UnknownProtocolDataUnit_c UnknownProtocolDataUnit_c))
       (\<lambda>n. Inr (n + length payload))"

fun pdu_len :: "pdu \<Rightarrow> error + nat"
  and aggregate_lens :: "pdu list \<Rightarrow> error + nat list" where
  "pdu_len (Symmetry dsap ssap) = Inr 2"
| "pdu_len (ParameterExchange dsap ssap version miu wks lto lsc dpc) =
     Inr (ParameterExchange_len version miu wks lto lsc dpc)"
| "pdu_len (AggregatedFrame dsap ssap aggregate) =
     (case aggregate_lens aggregate of
        Inl e \<Rightarrow> Inl e
      | Inr ns \<Rightarrow> Inr (2 + sum_list (map (\<lambda>n. 2 + n) ns)))"
| "pdu_len (UnnumberedInformation dsap ssap data) = Inr (2 + length data)"
| "pdu_len (Connect dsap ssap miu rw sn) = Inr (Connect_len miu rw sn)"
| "pdu_len (Disconnect dsap ssap) = Inr 2"
| "pdu_len (ConnectionComplete dsap ssap miu rw) = Inr (ConnectionComplete_len miu rw)"
| "pdu_len (DisconnectedMode dsap ssap reason) = Inr 3"
| "pdu_len (FrameReject dsap ssap flags ptype ns nr vs vr vsa vra) = Inr 6"
| "pdu_len (ServiceNameLookup dsap ssap sdreq sdres) = Inr (ServiceNameLookup_len sdreq sdres)"
| "pdu_len (DataProtectionSetup dsap ssap ecpk rn) = Inr (DataProtectionSetup_len ecpk rn)"
| "pdu_len (Information dsap ssap ns nr data) = Inr (3 + length data)"
| "pdu_len (ReceiveReady dsap ssap nr) = inherited_len (tl (mro ReceiveReady_c))"
| "pdu_len (ReceiveNotReady dsap ssap nr) = inherited_len (tl (mro ReceiveNotReady_c))"
| "pdu_len (UnknownProtocolDataUnit ptype dsap ssap payload) =
     UnknownProtocolDataUnit_len payload"
| "aggregate_lens [] = Inr []"
| "aggregate_lens (p # ps) =
     (case pdu_len p of
        Inl e \<Rightarrow> Inl e
      | Inr n \<Rightarrow> (case aggregate_lens ps of Inl e \<Rightarrow> Inl e | Inr ns \<Rightarrow> Inr (n # ns)))"

section \<open>Decoding\<close>

text \<open>
  The five TLV-carrying classes decode with the same loop
  \<^verbatim>\<open>while size >= 2: T, L, V = Parameter.decode(data, offset, size); ...;
  offset, size = offset + 2 + L, size - 2 - L\<close>, which differs only in what it does
  with \<open>(T, L, V)\<close>: the \<open>step\<close>, working on the attributes the loop assigns.
  Unpacking a \<^verbatim>\<open>None\<close> into \<^verbatim>\<open>T, L, V\<close> raises TypeError.
\<close>

function tlv_loop ::
    "('s \<Rightarrow> int \<times> int \<times> tlv_value \<Rightarrow> error + 's) \<Rightarrow> bytes \<Rightarrow> int \<Rightarrow> int \<Rightarrow> 's \<Rightarrow> error + 's" where
  "tlv_loop step data offset sz st =
     (if 2 \<le> sz then
        (case Parameter_decode data offset sz of
           Inl e \<Rightarrow> Inl e
         | Inr None \<Rightarrow> Inl TypeError
         | Inr (Some (T, L, V)) \<Rightarrow>
             (case step st (T, L, V) of
                Inl e \<Rightarrow> Inl e
              | Inr st' \<Rightarrow> tlv_loop step data (offset + 2 + L) (sz - 2 - L) st'))
      else Inr st)"
  by pat_completeness auto
termination
proof -
  have L: "0 \<le> L" if "Parameter_decode data offset sz = Inr (Some (T, L, V))"
    for data offset sz T L V
    using that
    by (auto simp: Parameter_decode_def unpack_from_BB_def andthen_def
        split: sum.splits if_splits prod.splits)
  show ?thesis
    by (relation "measure (\<lambda>(step, data, offset, sz, st). nat sz)") (auto dest: L)
qed

text \<open>
  The values \<^verbatim>\<open>Parameter.decode\<close> returns have the shape of their type code, so
  the TypeError of the next four functions is never reached from the loops.
\<close>

definition as_int :: "tlv_value \<Rightarrow> error + int" where
  "as_int V = (case V of VInt v \<Rightarrow> Inr v | _ \<Rightarrow> Inl TypeError)"

definition as_pair :: "tlv_value \<Rightarrow> error + int \<times> int" where
  "as_pair V = (case V of VPair a b \<Rightarrow> Inr (a, b) | _ \<Rightarrow> Inl TypeError)"

definition as_bytes :: "tlv_value \<Rightarrow> error + bytes" where
  "as_bytes V = (case V of VBytes v \<Rightarrow> Inr v | _ \<Rightarrow> Inl TypeError)"

definition as_req :: "tlv_value \<Rightarrow> error + int \<times> bytes" where
  "as_req V = (case V of VReq tid sn \<Rightarrow> Inr (tid, sn) | _ \<Rightarrow> Inl TypeError)"

definition Symmetry_decode :: "bytes \<Rightarrow> int \<Rightarrow> int \<Rightarrow> error + pdu" where
  "Symmetry_decode data offset sz =
     andthen (decode_header data offset sz) (\<lambda>(dsap, ssap).
       if \<not> dsap = 0 then Inl DecodeError
       else if \<not> ssap = 0 then Inl DecodeError
       else if 3 \<le> sz then Inl DecodeError
       else Inr (Symmetry dsap ssap))"

type_synonym pax_attrs = "(int \<times> int) option \<times> int \<times> int \<times> int \<times> int \<times> int"

fun ParameterExchange_tlv :: "pax_attrs \<Rightarrow> int \<times> int \<times> tlv_value \<Rightarrow> error + pax_attrs" where
  "ParameterExchange_tlv (version, miu, wks, lto, lsc, dpc) (T, L, V) =
     (if T = VERSION then andthen (as_pair V) (\<lambda>v. Inr (Some v, miu, wks, lto, lsc, dpc))
      else if T = MIUX then andthen (as_int V) (\<lambda>v. Inr (version, 128 + v, wks, lto, lsc, dpc))
      else if T = WKS then andthen (as_int V) (\<lambda>v. Inr (version, miu, v, lto, lsc, dpc))
      else if T = LTO then andthen (as_int V) (\<lambda>v. Inr (version, miu, wks, v * 10, lsc, dpc))
      else if T = OPT then
        andthen (as_int V) (\<lambda>v. Inr (version, miu, wks, lto, v AND 3, drop_bit 2 v AND 1))
      else Inr (version, miu, wks, lto, lsc, dpc))"

definition ParameterExchange_decode :: "bytes \<Rightarrow> int \<Rightarrow> int \<Rightarrow> error + pdu" where
  "ParameterExchange_decode data offset sz =
     andthen (decode_header data offset sz) (\<lambda>(dsap, ssap).
       if \<not> dsap = 0 then Inl DecodeError
       else if \<not> ssap = 0 then Inl DecodeError
       else andthen
         (tlv_loop ParameterExchange_tlv data (offset + 2) (sz - 2) (Some (1, 0), 128, 3, 100, 3, 0))
         (\<lambda>(version, miu, wks, lto, lsc, dpc).
            Inr (ParameterExchange dsap ssap version miu wks lto lsc dpc)))"

definition UnnumberedInformation_decode :: "bytes \<Rightarrow> int \<Rightarrow> int \<Rightarrow> error + pdu" where
  "UnnumberedInformation_decode data offset sz =
     andthen (decode_header data offset sz) (\<lambda>(dsap, ssap).
       Inr (UnnumberedInformation dsap ssap (py_slice data (offset + 2) (offset + sz))))"

fun Connect_tlv ::
    "int \<times> int \<times> bytes \<Rightarrow> int \<times> int \<times> tlv_value \<Rightarrow> error + int \<times> int \<times> bytes" where
  "Connect_tlv (miu, rw, sn) (T, L, V) =
     (if T = MIUX then andthen (as_int V) (\<lambda>v. Inr (128 + v, rw, sn))
      else if T = RW then andthen (as_int V) (\<lambda>v. Inr (miu, v, sn))
      else if T = SN then andthen (as_bytes V) (\<lambda>v. Inr (miu, rw, v))
      else Inr (miu, rw, sn))"

definition Connect_decode :: "bytes \<Rightarrow> int \<Rightarrow> int \<Rightarrow> error + pdu" where
  "Connect_decode data offset sz =
     andthen (decode_header data offset sz) (\<lambda>(dsap, ssap).
       andthen (tlv_loop Connect_tlv data (offset + 2) (sz - 2) (128, 1, []))
         (\<lambda>(miu, rw, sn). Inr (Connect dsap ssap miu rw sn)))"

definition Disconnect_decode :: "bytes \<Rightarrow> int \<Rightarrow> int \<Rightarrow> error + pdu" where
  "Disconnect_decode data offset sz =
     andthen (decode_header data offset sz) (\<lambda>(dsap, ssap). Inr (Disconnect dsap ssap))"

fun ConnectionComplete_tlv ::
    "int \<times> int \<Rightarrow> int \<times> int \<times> tlv_value \<Rightarrow> error + int \<times> int" where
  "ConnectionComplete_tlv (miu, rw) (T, L, V) =
     (if T = MIUX then andthen (as_int V) (\<lambda>v. Inr (128 + v, rw))
      else if T = RW then andthen (as_int V) (\<lambda>v. Inr (miu, v))
      else Inr (miu, rw))"

definition ConnectionComplete_decode :: "bytes \<Rightarrow> int \<Rightarrow> int \<Rightarrow> error + pdu" where
  "ConnectionComplete_decode data offset sz =
     andthen (decode_header data offset sz) (\<lambda>(dsap, ssap).
       andthen (tlv_loop ConnectionComplete_tlv data (offset + 2) (sz - 2) (128, 1))
         (\<lambda>(miu, rw). Inr (ConnectionComplete dsap ssap miu rw)))"

definition DisconnectedMode_decode :: "bytes \<Rightarrow> int \<Rightarrow> int \<Rightarrow> error + pdu" where
  "DisconnectedMode_decode data offset sz =
     (if \<not> sz = 3 then Inl DecodeError
      else andthen (decode_header data offset sz) (\<lambda>(dsap, ssap).
        andthen (unpack_from_B data (offset + 2)) (\<lambda>reason.
          Inr (DisconnectedMode dsap ssap reason))))"

text \<open>\<^verbatim>\<open>FrameReject.decode\<close> unpacks its four bytes \<^verbatim>\<open>'!BBBB'\<close> at \<^verbatim>\<open>offset\<close>.\<close>

definition FrameReject_decode :: "bytes \<Rightarrow> int \<Rightarrow> int \<Rightarrow> error + pdu" where
  "FrameReject_decode data offset sz =
     (if \<not> sz = 6 then Inl DecodeError
      else andthen (decode_header data offset sz) (\<lambda>(dsap, ssap).
        andthen (unpack_from_BBBB data offset) (\<lambda>(b0, b1, b2, b3).
          Inr (FrameReject dsap ssap (drop_bit 4 b0) (b0 AND 15) (drop_bit 4 b1) (b1 AND 15)
                 (drop_bit 4 b2) (b2 AND 15) (drop_bit 4 b3) (b3 AND 15)))))"

type_synonym snl_attrs = "(int \<times> bytes) list \<times> (int \<times> int) list"

fun ServiceNameLookup_tlv :: "snl_attrs \<Rightarrow> int \<times> int \<times> tlv_value \<Rightarrow> error + snl_attrs" where
  "ServiceNameLookup_tlv (sdreq, sdres) (T, L, V) =
     andthen (if T = SDREQ then andthen (as_req V) (\<lambda>v. Inr (sdreq @ [v])) else Inr sdreq)
       (\<lambda>sdreq. if T = SDRES then andthen (as_pair V) (\<lambda>v. Inr (sdreq, sdres @ [v]))
                 else Inr (sdreq, sdres))"

definition ServiceNameLookup_decode :: "bytes \<Rightarrow> int \<Rightarrow> int \<Rightarrow> error + pdu" where
  "ServiceNameLookup_decode data offset sz =
     andthen (decode_header data offset sz) (\<lambda>(dsap, ssap).
       andthen (tlv_loop ServiceNameLookup_tlv data (offset + 2) (sz - 2) ([], []))
         (\<lambda>(sdreq, sdres). Inr (ServiceNameLookup dsap ssap sdreq sdres)))"

fun DataProtectionSetup_tlv ::
    "bytes option \<times> bytes option \<Rightarrow> int \<times> int \<times> tlv_value
      \<Rightarrow> error + bytes option \<times> bytes option" where
  "DataProtectionSetup_tlv (ecpk, rn) (T, L, V) =
     (if T = ECPK then andthen (as_bytes V) (\<lambda>v. Inr (Some v, rn))
      else if T = RN then andthen (as_bytes V) (\<lambda>v. Inr (ecpk, Some v))
      else Inr (ecpk, rn))"

definition DataProtectionSetup_decode :: "bytes \<Rightarrow> int \<Rightarrow> int \<Rightarrow> error + pdu" where
  "DataProtectionSetup_decode data offset sz =
     andthen (decode_header data offset sz) (\<lambda>(dsap, ssap).
       andthen (tlv_loop DataProtectionSetup_tlv data (offset + 2) (sz - 2) (None, None))
         (\<lambda>(ecpk, rn). Inr (DataProtectionSetup dsap ssap ecpk rn)))"

definition Information_decode :: "bytes \<Rightarrow> int \<Rightarrow> int \<Rightarrow> error + pdu" where
  "Information_decode data offset sz =
     andthen (numbered_decode_header data offset sz) (\<lambda>(dsap, ssap, ns, nr).
       Inr (Information dsap ssap (Some ns) nr (py_slice data (offset + 3) (offset + sz))))"

definition ReceiveReady_decode :: "bytes \<Rightarrow> int \<Rightarrow> int \<Rightarrow> error + pdu" where
  "ReceiveReady_decode data offset sz =
     andthen (numbered_decode_header data offset sz) (\<lambda>(dsap, ssap, ns, nr).
       Inr (ReceiveReady dsap ssap nr))"

definition ReceiveNotReady_decode :: "bytes \<Rightarrow> int \<Rightarrow> int \<Rightarrow> error + pdu" where
  "ReceiveNotReady_decode data offset sz =
     andthen (numbered_decode_header data offset sz) (\<lambda>(dsap, ssap, ns, nr).
       Inr (ReceiveNotReady dsap ssap nr))"

definition UnknownProtocolDataUnit_decode :: "bytes \<Rightarrow> int \<Rightarrow> int \<Rightarrow> error + pdu" where
  "UnknownProtocolDataUnit_decode data offset sz =
     andthen (decode_header data offset sz) (\<lambda>(dsap, ssap).
     andthen (py_index data offset) (\<lambda>b0.
     andthen (py_index data (offset + 1)) (\<lambda>b1.
       UnknownProtocolDataUnit_init ((push_bit 2 b0 OR drop_bit 6 b1) AND 0x0F) dsap ssap
         (py_slice data (offset + 2) (offset + sz)))))"

text \<open>
  The dispatch table, and the entry point \<^verbatim>\<open>decode(data, offset=0, size=None)\<close>.
  \<^verbatim>\<open>AggregatedFrame.decode\<close> calls the entry point for every nested PDU, so the three
  functions are defined together; the \<^verbatim>\<open>while size > 0\<close> loop of
  \<^verbatim>\<open>AggregatedFrame.decode\<close> is \<open>AggregatedFrame_loop\<close>, with the list appended to
  so far.
\<close>

definition pdu_type_map :: "int \<Rightarrow> cls option" where
  "pdu_type_map =
     map_of [(0, Symmetry_c), (1, ParameterExchange_c), (2, AggregatedFrame_c),
       (3, UnnumberedInformation_c), (4, Connect_c), (5, Disconnect_c),
       (6, ConnectionComplete_c), (7, DisconnectedMode_c), (8, FrameReject_c),
       (9, ServiceNameLookup_c), (10, DataProtectionSetup_c), (12, Information_c),
       (13, ReceiveReady_c), (14, ReceiveNotReady_c)]"

text \<open>\<^verbatim>\<open>size = len(data) if size is None else size\<close>\<close>

definition given_size :: "bytes \<Rightarrow> int option \<Rightarrow> int" where
  "given_size data size_arg = (case size_arg of None \<Rightarrow> int (length data) | Some n \<Rightarrow> n)"

function decode :: "bytes \<Rightarrow> int \<Rightarrow> int option \<Rightarrow> error + pdu"
  and AggregatedFrame_decode :: "bytes \<Rightarrow> int \<Rightarrow> int \<Rightarrow> error + pdu"
  and AggregatedFrame_loop :: "bytes \<Rightarrow> int \<Rightarrow> int \<Rightarrow> pdu list \<Rightarrow> error + pdu list" where
  "decode data offset size_arg =
     (let sz = given_size data size_arg in
      if int (length data) < offset + sz then Inl DecodeError
      else if sz < 2 then Inl DecodeError
      else
        (case unpack_from_H data offset of
           Inl e \<Rightarrow> Inl e
         | Inr h \<Rightarrow>
             (case (case pdu_type_map (drop_bit 6 h AND 15) of
                      None \<Rightarrow> UnknownProtocolDataUnit_c | Some c \<Rightarrow> c) of
                Symmetry_c \<Rightarrow> Symmetry_decode data offset sz
              | ParameterExchange_c \<Rightarrow> ParameterExchange_decode data offset sz
              | AggregatedFrame_c \<Rightarrow> AggregatedFrame_decode data offset sz
              | UnnumberedInformation_c \<Rightarrow> UnnumberedInformation_decode data offset sz
              | Connect_c \<Rightarrow> Connect_decode data offset sz
              | Disconnect_c \<Rightarrow> Disconnect_decode data offset sz
              | ConnectionComplete_c \<Rightarrow> ConnectionComplete_decode data offset sz
              | DisconnectedMode_c \<Rightarrow> DisconnectedMode_decode data offset sz
              | FrameReject_c \<Rightarrow> FrameReject_decode data offset sz
              | ServiceNameLookup_c \<Rightarrow> ServiceNameLookup_decode data offset sz
              | DataProtectionSetup_c \<Rightarrow> DataProtectionSetup_decode data offset sz
              | Information_c \<Rightarrow> Information_decode data offset sz
              | ReceiveReady_c \<Rightarrow> ReceiveReady_decode data offset sz
              | ReceiveNotReady_c \<Rightarrow> ReceiveNotReady_decode data offset sz
              | UnknownProtocolDataUnit_c \<Rightarrow> UnknownProtocolDataUnit_decode data offset sz
              | _ \<Rightarrow> Inl AttributeError)))"
| "AggregatedFrame_decode data offset sz =
     (case decode_header data offset sz of
        Inl e \<Rightarrow> Inl e
      | Inr (dsap, ssap) \<Rightarrow>
          if \<not> dsap = 0 then Inl DecodeError
          else if \<not> ssap = 0 then Inl DecodeError
          else
            (case AggregatedFrame_loop data (offset + 2) (sz - 2) [] of
               Inl e \<Rightarrow> Inl e
             | Inr aggregate \<Rightarrow> Inr (AggregatedFrame dsap ssap aggregate)))"
| "AggregatedFrame_loop data offset sz aggregate =
     (if 0 < sz then
        (case unpack_from_H data offset of
           Inl e \<Rightarrow> Inl e
         | Inr pdu_size \<Rightarrow>
             (case decode data (offset + 2) (Some pdu_size) of
                Inl e \<Rightarrow> Inl e
              | Inr p \<Rightarrow>
                  AggregatedFrame_loop data (offset + 2 + pdu_size) (sz - 2 - pdu_size)
                    (aggregate @ [p])))
      else Inr aggregate)"
  by pat_completeness auto
termination
proof -
  have H: "0 \<le> n \<and> offset < int (length data)" if "unpack_from_H data offset = Inr n"
    for data offset n
    using that
    by (auto simp: unpack_from_H_def struct_read_def andthen_def Let_def split: if_splits)
  show ?thesis
    by (relation "measure (\<lambda>x. case x of
          Inl (data, offset, size_arg) \<Rightarrow> 3 * nat (int (length data) - offset) + 2
        | Inr (Inl (data, offset, sz)) \<Rightarrow> 3 * nat (int (length data) - offset) + 1
        | Inr (Inr (data, offset, sz, aggregate)) \<Rightarrow> 3 * nat (int (length data) - offset))")
      (auto dest!: H)
qed

section \<open>The TLVs of a body\<close>

text \<open>
  The TLVs a body holds are the triples \<open>(T, L, V)\<close> the loop reads from it, in
  order: the loop with the step that only collects them. \<open>tlv_steps\<close> applies a step
  to a list of TLVs. \<open>tlv_ints T ts\<close> are the integer values of the TLVs of type
  \<open>T\<close> among \<open>ts\<close>, and \<open>last_or d xs\<close> is the last item of \<open>xs\<close>, or \<open>d\<close>
  when there is none.
\<close>

type_synonym tlv = "int \<times> int \<times> tlv_value"

definition tlv_read :: "bytes \<Rightarrow> int \<Rightarrow> int \<Rightarrow> error + tlv list" where
  "tlv_read data offset sz = tlv_loop (\<lambda>ts t. Inr (ts @ [t])) data offset sz []"

fun tlv_steps :: "('s \<Rightarrow> tlv \<Rightarrow> error + 's) \<Rightarrow> tlv list \<Rightarrow> 's \<Rightarrow> error + 's" where
  "tlv_steps step [] st = Inr st"
| "tlv_steps step (t # ts) st =
     (case step st t of Inl e \<Rightarrow> Inl e | Inr st' \<Rightarrow> tlv_steps step ts st')"

definition tlv_ints :: "int \<Rightarrow> tlv list \<Rightarrow> int list" where
  "tlv_ints T ts =
     List.map_filter
       (\<lambda>(T', L, V). case V of VInt v \<Rightarrow> if T' = T then Some v else None | _ \<Rightarrow> None) ts"

definition last_or :: "'a \<Rightarrow> 'a list \<Rightarrow> 'a" where
  "last_or d xs = (if xs = [] then d else last xs)"

section \<open>Known variants and the size of a TLV\<close>

text \<open>
  \<open>known p\<close>: \<open>p\<close> is a value of one of the fourteen known variants, and so is
  every PDU nested in it. \<open>tlv_size T V\<close> is the number of bytes of the TLV that
  \<^verbatim>\<open>Parameter.encode\<close> returns for \<open>V\<close>.
\<close>

fun known :: "pdu \<Rightarrow> bool" and known_all :: "pdu list \<Rightarrow> bool" where
  "known (AggregatedFrame dsap ssap aggregate) = known_all aggregate"
| "known (UnknownProtocolDataUnit ptype dsap ssap payload) = False"
| "known p = True"
| "known_all [] = True"
| "known_all (p # ps) = (known p \<and> known_all ps)"

definition tlv_size :: "int \<Rightarrow> tlv_value \<Rightarrow> nat" where
  "tlv_size T V =
     (case V of
        VInt v \<Rightarrow> if T = MIUX \<or> T = WKS then 4 else 3
      | VPair a b \<Rightarrow> if T = VERSION then 3 else 4
      | VBytes v \<Rightarrow> 2 + length v
      | VReq tid sn \<Rightarrow> 3 + length sn)"

section \<open>Canonical values\<close>

text \<open>
  A value is canonical when \<^verbatim>\<open>encode\<close> writes each of its fields and \<^verbatim>\<open>decode\<close>
  reads the same field back: the addresses are in 0..63 (0 where \<^verbatim>\<open>decode\<close> demands
  it), \<open>miu\<close> is in 128..2175 (128 plus an 11-bit MIUX), \<open>rw\<close> in 1..255, a
  service name has at most 255 bytes, the version is a pair of nibbles, \<open>wks\<close> is in
  1..65535, \<open>lto\<close> a multiple of 10 in 10..2550, \<open>lsc\<close> in 0..3 and \<open>dpc\<close> in
  0..1 and not both 0, a reason is a byte, an SDREQ entry has a byte and a name of at
  most 254 bytes, an SDRES entry two bytes, ECPK and RN are absent or hold 1..255 bytes,
  \<open>ns\<close> of an Information PDU is present, \<open>ns\<close> and \<open>nr\<close> are in 0..15, and every
  PDU nested in an Aggregated Frame is canonical with a length of at most 65535. No
  Frame Reject value and no value of the unknown variant is canonical.
\<close>

definition sap_ok :: "int \<Rightarrow> bool" where "sap_ok a = (0 \<le> a \<and> a \<le> 63)"
definition nibble_ok :: "int \<Rightarrow> bool" where "nibble_ok n = (0 \<le> n \<and> n \<le> 15)"
definition byte_ok :: "int \<Rightarrow> bool" where "byte_ok n = (0 \<le> n \<and> n \<le> 255)"

definition miu_ok :: "int \<Rightarrow> bool" where "miu_ok miu = (128 \<le> miu \<and> miu \<le> 2175)"
definition rw_ok :: "int \<Rightarrow> bool" where "rw_ok rw = (1 \<le> rw \<and> rw \<le> 255)"
definition value_ok :: "bytes option \<Rightarrow> bool" where
  "value_ok v = (case v of None \<Rightarrow> True | Some bs \<Rightarrow> bs \<noteq> [] \<and> length bs \<le> 255)"

fun canonical :: "pdu \<Rightarrow> bool" and canonical_all :: "pdu list \<Rightarrow> bool" where
  "canonical (Symmetry dsap ssap) = (dsap = 0 \<and> ssap = 0)"
| "canonical (ParameterExchange dsap ssap version miu wks lto lsc dpc) =
     (dsap = 0 \<and> ssap = 0
      \<and> (case version of None \<Rightarrow> False | Some (major, minor) \<Rightarrow> nibble_ok major \<and> nibble_ok minor)
      \<and> miu_ok miu \<and> 1 \<le> wks \<and> wks \<le> 65535
      \<and> 10 \<le> lto \<and> lto \<le> 2550 \<and> lto mod 10 = 0
      \<and> 0 \<le> lsc \<and> lsc \<le> 3 \<and> 0 \<le> dpc \<and> dpc \<le> 1 \<and> 0 < lsc + dpc)"
| "canonical (AggregatedFrame dsap ssap aggregate) =
     (dsap = 0 \<and> ssap = 0 \<and> canonical_all aggregate)"
| "canonical (UnnumberedInformation dsap ssap data) = (sap_ok dsap \<and> sap_ok ssap)"
| "canonical (Connect dsap ssap miu rw sn) =
     (sap_ok dsap \<and> sap_ok ssap \<and> miu_ok miu \<and> rw_ok rw \<and> length sn \<le> 255)"
| "canonical (Disconnect dsap ssap) = (sap_ok dsap \<and> sap_ok ssap)"
| "canonical (ConnectionComplete dsap ssap miu rw) =
     (sap_ok dsap \<and> sap_ok ssap \<and> miu_ok miu \<and> rw_ok rw)"
| "canonical (DisconnectedMode dsap ssap reason) =
     (sap_ok dsap \<and> sap_ok ssap \<and> byte_ok reason)"
| "canonical (FrameReject dsap ssap flags ptype ns nr vs vr vsa vra) = False"
| "canonical (ServiceNameLookup dsap ssap sdreq sdres) =
     (sap_ok dsap \<and> sap_ok ssap
      \<and> list_all (\<lambda>r. byte_ok (fst r) \<and> length (snd r) \<le> 254) sdreq
      \<and> list_all (\<lambda>r. byte_ok (fst r) \<and> byte_ok (snd r)) sdres)"
| "canonical (DataProtectionSetup dsap ssap ecpk rn) =
     (sap_ok dsap \<and> sap_ok ssap \<and> value_ok ecpk \<and> value_ok rn)"
| "canonical (Information dsap ssap ns nr data) =
     (sap_ok dsap \<and> sap_ok ssap
      \<and> (case ns of None \<Rightarrow> False | Some n \<Rightarrow> nibble_ok n) \<and> nibble_ok nr)"
| "canonical (ReceiveReady dsap ssap nr) = (sap_ok dsap \<and> sap_ok ssap \<and> nibble_ok nr)"
| "canonical (ReceiveNotReady dsap ssap nr) = (sap_ok dsap \<and> sap_ok ssap \<and> nibble_ok nr)"
| "canonical (UnknownProtocolDataUnit ptype dsap ssap payload) = False"
| "canonical_all [] = True"
| "canonical_all (p # ps) =
     (canonical p \<and> (case pdu_len p of Inl e \<Rightarrow> False | Inr n \<Rightarrow> n \<le> 65535)
      \<and> canonical_all ps)"

section \<open>The bytes of canonical values\<close>

text \<open>
  Used in the proofs: \<open>tlv_ok T V\<close> says that \<open>V\<close> has the shape and range of a TLV
  of type \<open>T\<close>; \<open>tlv_bytes\<close> are its bytes and \<open>wire\<close> the triple
  \<^verbatim>\<open>Parameter.decode\<close> returns for them; \<open>header_of\<close> are the two header bytes;
  \<open>frames\<close> is the body of an Aggregated Frame holding the given encodings;
  \<open>decodes_to b v\<close> says that \<^verbatim>\<open>decode\<close> returns \<open>v\<close> for the bytes \<open>b\<close>
  wherever they stand in a buffer.
\<close>

definition tlv_ok :: "int \<Rightarrow> tlv_value \<Rightarrow> bool" where
  "tlv_ok T V =
     (case V of
        VInt v \<Rightarrow> (T = MIUX \<and> 0 \<le> v \<and> v \<le> 0x7FF) \<or> (T = WKS \<and> 0 \<le> v \<and> v \<le> 65535)
                  \<or> ((T = LTO \<or> T = RW \<or> T = OPT) \<and> byte_ok v)
      | VPair a b \<Rightarrow> (T = VERSION \<and> nibble_ok a \<and> nibble_ok b)
                  \<or> (T = SDRES \<and> byte_ok a \<and> byte_ok b)
      | VBytes v \<Rightarrow> (T = SN \<or> T = ECPK \<or> T = RN) \<and> length v \<le> 255
      | VReq tid sn \<Rightarrow> T = SDREQ \<and> byte_ok tid \<and> length sn \<le> 254)"

definition tlv_bytes :: "int \<Rightarrow> tlv_value \<Rightarrow> bytes" where
  "tlv_bytes T V = (case Parameter_encode T V of Inl e \<Rightarrow> [] | Inr b \<Rightarrow> b)"

definition wire :: "int \<times> tlv_value \<Rightarrow> tlv" where
  "wire tv = (fst tv, int (tlv_size (fst tv) (snd tv)) - 2, snd tv)"

definition tlvs_bytes :: "(int \<times> tlv_value) list \<Rightarrow> bytes" where
  "tlvs_bytes tvs = concat (map (\<lambda>tv. tlv_bytes (fst tv) (snd tv)) tvs)"

definition header_of :: "int \<Rightarrow> int \<Rightarrow> int \<Rightarrow> bytes" where
  "header_of ptype dsap ssap =
     [word_of_int ((push_bit 10 dsap OR push_bit 6 ptype OR ssap) div 256),
      word_of_int ((push_bit 10 dsap OR push_bit 6 ptype OR ssap) mod 256)]"

definition frames :: "bytes list \<Rightarrow> bytes" where
  "frames bs = concat (map (\<lambda>b. [word_of_int (int (length b) div 256),
                                    word_of_int (int (length b) mod 256)] @ b) bs)"

definition decodes_to :: "bytes \<Rightarrow> pdu \<Rightarrow> bool" where
  "decodes_to b v =
     (2 \<le> length b \<and>
      (\<forall>pre post. decode (pre @ b @ post) (int (length pre)) (Some (int (length b))) = Inr v))"

declare tlv_loop.simps [simp del]
declare decode.simps [simp del]
declare AggregatedFrame_decode.simps [simp del]
declare AggregatedFrame_loop.simps [simp del]

section \<open>The entry points on concrete inputs\<close>

text \<open>
  C9. A Connect PDU with destination address 2, source address 32, the service name
  \<^verbatim>\<open>urn:nfc:sn:snep\<close> and the constructor's defaults \<^verbatim>\<open>miu=128\<close>, \<^verbatim>\<open>rw=1\<close>
  encodes to the bytes \<^verbatim>\<open>09 20 06 0F\<close> followed by the 15 bytes of the name.
\<close>

theorem Connect_encode_snep:
  "encode (Connect 2 32 128 1 (map of_char ''urn:nfc:sn:snep'')) =
     Inr ([0x09, 0x20, 0x06, 0x0F] @ map of_char ''urn:nfc:sn:snep'')"
  by code_simp

lemma Connect_encode_snep_bytes:
  "encode (Connect 2 32 128 1 (map of_char ''urn:nfc:sn:snep'')) =
     Inr [0x09, 0x20, 0x06, 0x0F, 0x75, 0x72, 0x6E, 0x3A, 0x6E, 0x66, 0x63, 0x3A,
          0x73, 0x6E, 0x3A, 0x73, 0x6E, 0x65, 0x70]"
  by code_simp

text \<open>
  C8. \<^verbatim>\<open>decode\<close> raises DecodeError on every call whose size (the argument, or the
  length of the buffer when it is \<^verbatim>\<open>None\<close>) is 0 or 1, and on every call where
  offset + size exceeds the length of the buffer; no value is returned.
\<close>

theorem decode_bounds:
  assumes "given_size data size_arg = 0 \<or> given_size data size_arg = 1
           \<or> int (length data) < offset + given_size data size_arg"
  shows "decode data offset size_arg = Inl DecodeError"
  using assms by (auto simp: decode.simps Let_def)

theorem decode_bounds_witness:
  "decode [] 0 None = Inl DecodeError \<and>
   decode [0x00] 0 None = Inl DecodeError \<and>
   decode [0x00, 0x00, 0x00] 2 (Some 2) = Inl DecodeError"
  using decode_bounds [of "[]" None 0] decode_bounds [of "[0x00]" None 0]
    decode_bounds [of "[0x00, 0x00, 0x00]" "Some 2" 2]
  by (simp add: given_size_def)

lemma decode_negative_size: "sz < 2 \<Longrightarrow> decode data offset (Some sz) = Inl DecodeError"
  by (simp add: decode.simps given_size_def)

text \<open>
  C2. The buffer \<^verbatim>\<open>02 C0 DE AD\<close> has the unmapped type code 11 and two trailing
  bytes. \<^verbatim>\<open>decode\<close> does not return the unknown variant for it: the constructor of
  \<^verbatim>\<open>UnknownProtocolDataUnit\<close> passes its three arguments to \<^verbatim>\<open>object.__init__\<close>
  and the call raises TypeError.
\<close>

theorem decode_unknown_type_raises:
  "decode [0x02, 0xC0, 0xDE, 0xAD] 0 None = Inl TypeError"
  by code_simp

text \<open>
  No buffer with an unmapped type code is decoded: the constructor of the unknown variant
  raises for every argument.
\<close>

lemma UnknownProtocolDataUnit_init_raises:
  "UnknownProtocolDataUnit_init ptype dsap ssap payload = Inl TypeError"
  by (simp add: UnknownProtocolDataUnit_init_def super_init_def super_classes_def mro_def
      init_params_def andthen_def)

lemma UnknownProtocolDataUnit_decode_raises:
  "\<exists>e. UnknownProtocolDataUnit_decode data offset sz = Inl e"
  by (auto simp: UnknownProtocolDataUnit_decode_def UnknownProtocolDataUnit_init_raises
      andthen_def split: sum.splits prod.splits)

lemma decode_unmapped_raises:
  assumes "unpack_from_H data offset = Inr h" "pdu_type_map (drop_bit 6 h AND 15) = None"
  shows "\<exists>e. decode data offset size_arg = Inl e"
  using assms UnknownProtocolDataUnit_decode_raises [of data offset "given_size data size_arg"]
  by (auto simp: decode.simps Let_def)

text \<open>
  C3. \<^verbatim>\<open>Parameter.encode\<close> does not raise EncodeError for a service name of 256
  bytes, an SDREQ name of 255 bytes or the unknown type code 12: building the message
  of the EncodeError raises TypeError first.
\<close>

theorem Parameter_encode_too_long_raises:
  "Parameter_encode SN (VBytes (replicate 256 0)) = Inl TypeError \<and>
   Parameter_encode SDREQ (VReq 1 (replicate 255 0)) = Inl TypeError \<and>
   Parameter_encode 12 (VBytes []) = Inl TypeError"
  by code_simp

text \<open>\<^verbatim>\<open>Parameter.encode\<close> raises EncodeError for no argument at all.\<close>

lemma Parameter_encode_never_EncodeError: "Parameter_encode T V \<noteq> Inl EncodeError"
  by (auto simp: Parameter_encode_def pack_B_def pack_H_def andthen_def format_tuple_def
      split: tlv_value.splits if_splits)

text \<open>
  C4. A Parameter Exchange body with an LTO TLV followed by a TLV of the type code 12,
  which the TLV codec does not know: \<^verbatim>\<open>Parameter.decode\<close> returns \<^verbatim>\<open>None\<close> for it
  and unpacking that into \<^verbatim>\<open>T, L, V\<close> raises TypeError, so decoding aborts.
\<close>

theorem ParameterExchange_unknown_tlv_raises:
  "decode [0x00, 0x40, 0x04, 0x01, 0x07, 0x0C, 0x00] 0 None = Inl TypeError"
  by code_simp

text \<open>
  The same for every TLV-carrying variant and every type code outside 1..11: the loop
  raises TypeError. A TLV of a type code in 1..11 that Parameter Exchange does not use
  is skipped.
\<close>

lemma Parameter_decode_unknown_type:
  assumes "unpack_from_BB data offset = Inr (T, L)" "T < 1 \<or> 11 < T" "L \<le> sz - 2"
  shows "Parameter_decode data offset sz = Inr None"
  using assms by (auto simp: Parameter_decode_def andthen_def)

lemma tlv_loop_unknown_type:
  assumes "unpack_from_BB data offset = Inr (T, L)" "T < 1 \<or> 11 < T" "L \<le> sz - 2" "2 \<le> sz"
  shows "tlv_loop step data offset sz st = Inl TypeError"
  using assms Parameter_decode_unknown_type [OF assms(1-3)]
  by (subst tlv_loop.simps) simp

lemma ParameterExchange_tlv_skips:
  assumes "T \<noteq> VERSION" "T \<noteq> MIUX" "T \<noteq> WKS" "T \<noteq> LTO" "T \<noteq> OPT"
  shows "ParameterExchange_tlv st (T, L, V) = Inr st"
  using assms by (cases st) simp

text \<open>
  C5. The Frame Reject buffer \<^verbatim>\<open>02 00 12 34 56 78\<close> (header \<^verbatim>\<open>02 00\<close>, payload
  \<^verbatim>\<open>12 34 56 78\<close>) decodes to flags 0, rejected type 2, N(S) 0, N(R) 0, V(S) 1,
  V(R) 2, V(SA) 3, V(RA) 4: the nibbles of the two header bytes and of the first two
  payload bytes, not those of the four payload bytes.
\<close>

theorem FrameReject_decode_reads_header:
  "decode [0x02, 0x00, 0x12, 0x34, 0x56, 0x78] 0 None = Inr (FrameReject 0 0 0 2 0 0 1 2 3 4)"
  by code_simp

text \<open>
  In general \<^verbatim>\<open>FrameReject.decode\<close> returns the nibbles of the four bytes at
  \<^verbatim>\<open>offset\<close>, the first two of which are the header. \<^verbatim>\<open>FrameReject.encode\<close>
  writes the four bytes behind the header, and the rejected type into the header's type
  code.
\<close>

lemma FrameReject_decode_bytes:
  assumes "unpack_from_BBBB data offset = Inr (b0, b1, b2, b3)"
  shows "FrameReject_decode data offset 6 =
     Inr (FrameReject (drop_bit 2 b0) (b1 AND 63) (drop_bit 4 b0) (b0 AND 15)
            (drop_bit 4 b1) (b1 AND 15) (drop_bit 4 b2) (b2 AND 15) (drop_bit 4 b3) (b3 AND 15))"
  using assms
  by (auto simp: FrameReject_decode_def decode_header_def unpack_from_BBBB_def
      unpack_from_BB_def struct_read_def andthen_def Let_def split: if_splits)

lemma FrameReject_encode_bytes:
  "encode (FrameReject 0 0 1 2 3 4 5 6 7 8) = Inr [0x00, 0x80, 0x12, 0x34, 0x56, 0x78]"
  by code_simp

text \<open>
  The methods of \<^verbatim>\<open>UnknownProtocolDataUnit\<close>, applied to the attributes an instance
  would hold (none is ever built, its constructor raises): \<^verbatim>\<open>encode\<close> returns the
  header and the payload, and \<^verbatim>\<open>__len__\<close> raises AttributeError, since no base of
  the class defines \<^verbatim>\<open>__len__\<close>.
\<close>

lemma Unknown_len_raises:
  "pdu_len (UnknownProtocolDataUnit 11 0 0 [0xDE]) = Inl AttributeError \<and>
   encode (UnknownProtocolDataUnit 11 0 0 [0xDE]) = Inr [0x02, 0xC0, 0xDE]"
  by code_simp

text \<open>A buffer whose 16-bit header word is 128 starts with the bytes \<^verbatim>\<open>00 80\<close>.\<close>

lemma header_bytes:
  assumes "unpack_from_H data offset = Inr 128"
  shows "unpack_from_BB data offset = Inr (0, 128)"
proof -
  from assms obtain bs where bs: "struct_read 2 data offset = Inr bs"
    and h: "256 * uint (bs ! 0) + uint (bs ! 1) = 128"
    by (auto simp: unpack_from_H_def andthen_def split: sum.splits)
  have "0 \<le> uint (bs ! 0)" "0 \<le> uint (bs ! 1)" "uint (bs ! 1) < 256"
    using uint_lt2p [of "bs ! 1"] by simp_all
  with h have a: "uint (bs ! 0) = 0" by linarith
  with h have "uint (bs ! 1) = 128" by simp
  with a bs show ?thesis by (simp add: unpack_from_BB_def andthen_def)
qed

text \<open>
  C10. Take any buffer that holds at \<open>offset\<close> the header \<^verbatim>\<open>00 80\<close> of an
  Aggregated Frame, and a frame size \<open>sz\<close> that leaves a body (\<open>0 < sz - 2\<close>). Let
  \<open>n\<close> be the declared length of the first nested entry, greater than the frame's
  remaining size \<open>sz - 2\<close>, and let the \<open>n\<close> bytes behind it be inside the buffer
  and decode to \<open>p\<close>. Then \<^verbatim>\<open>decode\<close> does not raise DecodeError: it returns the
  frame holding \<open>p\<close>, which it has read from the bytes up to \<open>offset + 4 + n\<close>,
  beyond the frame's declared end \<open>offset + sz\<close>. The nested length is checked
  against the length of the buffer only (in the nested call of \<^verbatim>\<open>decode\<close>).
\<close>

theorem AggregatedFrame_nested_length_unchecked:
  assumes "unpack_from_H data offset = Inr 128"
    and "0 < sz - 2"
    and "unpack_from_H data (offset + 2) = Inr n"
    and "sz - 2 < n"
    and "decode data (offset + 4) (Some n) = Inr p"
  shows "decode data offset (Some sz) = Inr (AggregatedFrame 0 0 [p])
         \<and> offset + sz < offset + 4 + n \<and> offset + 4 + n \<le> int (length data)"
proof -
  from assms(5) have fit: "offset + 4 + n \<le> int (length data)"
    by (subst (asm) decode.simps) (simp add: given_size_def Let_def split: if_splits)
  have t: "drop_bit 6 (128 :: int) AND 15 = 2" by simp
  have hd: "decode_header data offset sz = Inr (0, 0)"
    using assms(2) by (simp add: decode_header_def header_bytes [OF assms(1)] andthen_def)
  have stop: "AggregatedFrame_loop data (offset + 2 + 2 + n) (sz - 2 - 2 - n) [p] = Inr [p]"
    using assms(4) by (subst AggregatedFrame_loop.simps) simp
  have loop: "AggregatedFrame_loop data (offset + 2) (sz - 2) [] = Inr [p]"
    using assms(2,3,5) stop by (subst AggregatedFrame_loop.simps) (simp add: add.assoc)
  have "AggregatedFrame_decode data offset sz = Inr (AggregatedFrame 0 0 [p])"
    by (subst AggregatedFrame_decode.simps) (simp add: hd loop)
  moreover have "decode data offset (Some sz) = AggregatedFrame_decode data offset sz"
    using assms(2,4) fit
    by (subst decode.simps) (simp add: given_size_def Let_def assms(1) t pdu_type_map_def)
  ultimately show ?thesis
    using assms(4) fit by simp
qed

text \<open>
  Two buffers that agree on the three bytes of the declared frame and differ behind
  them: the first decodes to a frame holding a Symmetry PDU, the second to a frame
  holding a Disconnect PDU.
\<close>

theorem AggregatedFrame_nested_length_unchecked_witness:
  "take 3 [0x00, 0x80, 0x00, 0x02, 0x00, 0x00] = take 3 [0x00, 0x80, 0x00, 0x02, 0x05, 0x41 :: byte] \<and>
   decode [0x00, 0x80, 0x00, 0x02, 0x00, 0x00] 0 (Some 3)
     = Inr (AggregatedFrame 0 0 [Symmetry 0 0]) \<and>
   decode [0x00, 0x80, 0x00, 0x02, 0x05, 0x41] 0 (Some 3)
     = Inr (AggregatedFrame 0 0 [Disconnect 1 1])"
proof -
  have h: "unpack_from_H [0x00, 0x80, 0x00, 0x02, 0x00, 0x00] 0 = Inr 128"
    "unpack_from_H [0x00, 0x80, 0x00, 0x02, 0x05, 0x41] 0 = Inr 128"
    by code_simp+
  have n: "unpack_from_H [0x00, 0x80, 0x00, 0x02, 0x00, 0x00] (0 + 2) = Inr 2"
    "unpack_from_H [0x00, 0x80, 0x00, 0x02, 0x05, 0x41] (0 + 2) = Inr 2"
    by code_simp+
  have p: "decode [0x00, 0x80, 0x00, 0x02, 0x00, 0x00] (0 + 4) (Some 2) = Inr (Symmetry 0 0)"
    "decode [0x00, 0x80, 0x00, 0x02, 0x05, 0x41] (0 + 4) (Some 2) = Inr (Disconnect 1 1)"
    by code_simp+
  have s: "(0::int) < 3 - 2" "(3::int) - 2 < 2" by simp_all
  from AggregatedFrame_nested_length_unchecked [OF h(1) s(1) n(1) s(2) p(1)]
    AggregatedFrame_nested_length_unchecked [OF h(2) s(1) n(2) s(2) p(2)]
  show ?thesis by simp
qed

text \<open>
  The same inside one buffer decoded with the default arguments: the inner frame at
  offset 4 declares 5 bytes (offsets 4 to 8), its nested Symmetry PDU is read from
  offsets 8 and 9, and the outer frame reads offset 9 again as part of its next length.
\<close>

lemma AggregatedFrame_nested_overlap:
  "decode [0x00, 0x80, 0x00, 0x05, 0x00, 0x80, 0x00, 0x02, 0x00, 0x00, 0x02, 0x00, 0x00] 0 None =
     Inr (AggregatedFrame 0 0 [AggregatedFrame 0 0 [Symmetry 0 0], Symmetry 0 0])"
  by code_simp

section \<open>Encoded length of the known variants\<close>

text \<open>
  For the fourteen known variants \<^verbatim>\<open>len\<close> agrees with \<^verbatim>\<open>encode\<close>: whenever
  \<^verbatim>\<open>encode\<close> returns bytes, \<^verbatim>\<open>len\<close> returns their number.
\<close>

lemma tlv_len_simps [simp]: "tlv_len True n = n" "tlv_len False n = 0"
  by (simp_all add: tlv_len_def)

lemma pack_H_length: "pack_H x = Inr h \<Longrightarrow> length h = 2"
  by (auto simp: pack_H_def split: if_splits)

lemma pack_B_length: "pack_B xs = Inr b \<Longrightarrow> length b = length xs"
  by (auto simp: pack_B_def split: if_splits)

lemma encode_header_length: "encode_header ptype dsap ssap = Inr h \<Longrightarrow> length h = 2"
  by (auto simp: encode_header_def pack_H_length split: if_splits)

lemma numbered_encode_header_length:
  "numbered_encode_header ptype dsap ssap ns nr = Inr h \<Longrightarrow> length h = 3"
  by (auto simp: numbered_encode_header_def andthen_def pack_H_length pack_B_length
      split: if_splits sum.splits dest!: pack_H_length pack_B_length)

lemma Parameter_encode_length:
  "Parameter_encode T V = Inr tlv \<Longrightarrow> length tlv = tlv_size T V"
  by (auto simp: Parameter_encode_def tlv_size_def andthen_def format_tuple_def
      split: if_splits tlv_value.splits sum.splits dest!: pack_H_length pack_B_length)

lemma add_tlv_length:
  "add_tlv c T V data = Inr data' \<Longrightarrow> length data' = length data + tlv_len c (tlv_size T V)"
  by (auto simp: add_tlv_def tlv_len_def andthen_def split: if_splits sum.splits
      dest!: Parameter_encode_length)

lemma add_tlvs_length:
  "add_tlvs T Vs data = Inr data' \<Longrightarrow>
   length data' = length data + sum_list (map (tlv_size T) Vs)"
  by (induction Vs arbitrary: data) (auto split: sum.splits dest!: Parameter_encode_length)

lemma AggregatedFrame_join_length:
  "AggregatedFrame_join data encoded = Inr data' \<Longrightarrow>
   length data' = length data + sum_list (map (\<lambda>e. 2 + length e) encoded)"
  by (induction encoded arbitrary: data) (auto split: sum.splits dest!: pack_H_length)

lemma sdres_size:
  "sum_list (map (tlv_size 9 \<circ> (\<lambda>(tid, sap). VPair tid sap)) sdres) = length sdres * 4"
  by (induction sdres) (auto simp: tlv_size_def)

lemma sdreq_size:
  "sum_list (map (tlv_size 8 \<circ> (\<lambda>(tid, sn). VReq tid sn)) sdreq) =
     sum_list (map (\<lambda>r. 3 + length (snd r)) sdreq)"
  by (induction sdreq) (auto simp: tlv_size_def)

lemma len_encode:
  "known p \<Longrightarrow> encode p = Inr b \<Longrightarrow> pdu_len p = Inr (length b)"
  "known_all ps \<Longrightarrow> encode_aggregate ps = Inr bs \<Longrightarrow> aggregate_lens ps = Inr (map length bs)"
proof (induction p and ps arbitrary: b and bs rule: encode_encode_aggregate.induct)
  case (1 dsap ssap)
  then show ?case by (simp add: Symmetry_encode_def encode_header_length)
next
  case (2 dsap ssap version miu wks lto lsc dpc)
  then show ?case
    by (auto simp: ParameterExchange_encode_def ParameterExchange_len_def andthen_def
        tlv_size_def
        split: sum.splits option.splits prod.splits
        dest!: encode_header_length add_tlv_length)
next
  case (3 dsap ssap aggregate)
  then show ?case
    by (auto simp: comp_def split: sum.splits dest!: encode_header_length AggregatedFrame_join_length)
next
  case (4 dsap ssap data)
  then show ?case
    by (auto simp: UnnumberedInformation_encode_def andthen_def split: sum.splits
        dest!: encode_header_length)
next
  case (5 dsap ssap miu rw sn)
  then show ?case
    by (auto simp: Connect_encode_def Connect_len_def andthen_def tlv_size_def
        split: sum.splits dest!: encode_header_length add_tlv_length)
next
  case (6 dsap ssap)
  then show ?case by (simp add: Disconnect_encode_def encode_header_length)
next
  case (7 dsap ssap miu rw)
  then show ?case
    by (auto simp: ConnectionComplete_encode_def ConnectionComplete_len_def andthen_def
        tlv_size_def split: sum.splits dest!: encode_header_length add_tlv_length)
next
  case (8 dsap ssap reason)
  then show ?case
    by (auto simp: DisconnectedMode_encode_def andthen_def split: sum.splits
        dest!: encode_header_length pack_B_length)
next
  case (9 dsap ssap flags ptype ns nr vs vr vsa vra)
  then show ?case
    by (auto simp: FrameReject_encode_def andthen_def split: sum.splits
        dest!: encode_header_length pack_B_length)
next
  case (10 dsap ssap sdreq sdres)
  then show ?case
    by (auto simp: ServiceNameLookup_encode_def ServiceNameLookup_len_def andthen_def
        sdres_size sdreq_size
        split: sum.splits dest!: encode_header_length add_tlvs_length)
next
  case (11 dsap ssap ecpk rn)
  then show ?case
    by (auto simp: DataProtectionSetup_encode_def DataProtectionSetup_len_def andthen_def
        tlv_size_def
        split: sum.splits option.splits dest!: encode_header_length add_tlv_length)
next
  case (12 dsap ssap ns nr data)
  then show ?case
    by (auto simp: Information_encode_def andthen_def split: sum.splits
        dest!: numbered_encode_header_length)
next
  case (13 dsap ssap nr)
  then show ?case
    by (auto simp: ReceiveReady_encode_def inherited_len_def mro_def base_len_def
        List.map_filter_simps dest!: numbered_encode_header_length)
next
  case (14 dsap ssap nr)
  then show ?case
    by (auto simp: ReceiveNotReady_encode_def inherited_len_def mro_def base_len_def
        List.map_filter_simps dest!: numbered_encode_header_length)
next
  case (15 ptype dsap ssap payload)
  then show ?case by simp
next
  case 16
  then show ?case by simp
next
  case (17 p ps)
  then show ?case by (auto split: sum.splits)
qed

text \<open>
  The values of type \<open>pdu\<close> that the code can build are the known ones: the
  constructor of the unknown variant raises for every argument, and \<^verbatim>\<open>decode\<close>
  returns known values only.
\<close>

lemma known_all_snoc: "known_all (ps @ [p]) = (known_all ps \<and> known p)"
  by (induction ps) auto

lemma decode_known:
  "decode data offset size_arg = Inr p \<Longrightarrow> known p"
  "AggregatedFrame_decode data offset sz = Inr p \<Longrightarrow> known p"
  "AggregatedFrame_loop data offset sz aggregate = Inr ps \<Longrightarrow> known_all aggregate \<Longrightarrow> known_all ps"
proof (induction data offset size_arg and data offset sz and data offset sz aggregate
    arbitrary: p and p and ps
    rule: decode_AggregatedFrame_decode_AggregatedFrame_loop.induct)
  case (1 data offset size_arg)
  from "1.prems" UnknownProtocolDataUnit_decode_raises [of data offset "given_size data size_arg"]
  show ?case
    apply (subst (asm) decode.simps)
    apply (simp add: Let_def split: if_splits sum.splits cls.splits)
                    apply (auto simp: Symmetry_decode_def ParameterExchange_decode_def
        UnnumberedInformation_decode_def Connect_decode_def Disconnect_decode_def
        ConnectionComplete_decode_def DisconnectedMode_decode_def FrameReject_decode_def
        ServiceNameLookup_decode_def DataProtectionSetup_decode_def Information_decode_def
        ReceiveReady_decode_def ReceiveNotReady_decode_def andthen_def
        split: sum.splits if_splits prod.splits intro: "1.IH")
    done
next
  case (2 data offset sz)
  from "2.prems" obtain agg where hd: "decode_header data offset sz = Inr (0, 0)"
    and lp: "AggregatedFrame_loop data (offset + 2) (sz - 2) [] = Inr agg"
    and p: "p = AggregatedFrame 0 0 agg"
    by (subst (asm) AggregatedFrame_decode.simps)
      (auto split: sum.splits if_splits prod.splits)
  from "2.IH" [OF hd refl _ _ lp] have "known_all agg" by simp
  then show ?case by (simp add: p)
next
  case (3 data offset sz aggregate)
  show ?case
  proof (cases "0 < sz")
    case False
    with "3.prems" show ?thesis
      by (subst (asm) AggregatedFrame_loop.simps) simp
  next
    case True
    with "3.prems"(1) obtain n q where h: "unpack_from_H data offset = Inr n"
      and d: "decode data (offset + 2) (Some n) = Inr q"
      and lp: "AggregatedFrame_loop data (offset + 2 + n) (sz - 2 - n) (aggregate @ [q]) = Inr ps"
      by (subst (asm) AggregatedFrame_loop.simps) (auto split: sum.splits)
    from "3.IH"(1) [OF True h d] have "known q" .
    with "3.prems"(2) have "known_all (aggregate @ [q])" by (simp add: known_all_snoc)
    with "3.IH"(2) [OF True h d lp] show ?thesis .
  qed
qed

text \<open>
  C6. For every PDU value that can be constructed, of every variant (the known values:
  no value of the unknown variant exists), the length \<^verbatim>\<open>len\<close> computes is the number
  of bytes that \<^verbatim>\<open>encode\<close> returns for the value.
\<close>

theorem len_equals_encoded_length:
  assumes "known p" and "encode p = Inr b"
  shows "pdu_len p = Inr (length b)"
  using assms by (rule len_encode(1))

text \<open>
  An Aggregated Frame holding a Connect PDU and a Receive Ready PDU: 28 bytes.
\<close>

theorem len_equals_encoded_length_witness:
  "known (AggregatedFrame 0 0
     [Connect 2 32 128 1 (map of_char ''urn:nfc:sn:snep''), ReceiveReady 1 2 3]) \<and>
   encode (AggregatedFrame 0 0
     [Connect 2 32 128 1 (map of_char ''urn:nfc:sn:snep''), ReceiveReady 1 2 3])
     = Inr [0x00, 0x80, 0x00, 0x13, 0x09, 0x20, 0x06, 0x0F, 0x75, 0x72, 0x6E, 0x3A, 0x6E,
            0x66, 0x63, 0x3A, 0x73, 0x6E, 0x3A, 0x73, 0x6E, 0x65, 0x70, 0x00, 0x03, 0x07,
            0x42, 0x03] \<and>
   pdu_len (AggregatedFrame 0 0
     [Connect 2 32 128 1 (map of_char ''urn:nfc:sn:snep''), ReceiveReady 1 2 3]) = Inr 28"
proof -
  have k: "known (AggregatedFrame 0 0
     [Connect 2 32 128 1 (map of_char ''urn:nfc:sn:snep''), ReceiveReady 1 2 3])"
    by simp
  have e: "encode (AggregatedFrame 0 0
     [Connect 2 32 128 1 (map of_char ''urn:nfc:sn:snep''), ReceiveReady 1 2 3])
     = Inr [0x00, 0x80, 0x00, 0x13, 0x09, 0x20, 0x06, 0x0F, 0x75, 0x72, 0x6E, 0x3A, 0x6E,
            0x66, 0x63, 0x3A, 0x73, 0x6E, 0x3A, 0x73, 0x6E, 0x65, 0x70, 0x00, 0x03, 0x07,
            0x42, 0x03]"
    by code_simp
  from len_equals_encoded_length [OF k e] have "pdu_len (AggregatedFrame 0 0
     [Connect 2 32 128 1 (map of_char ''urn:nfc:sn:snep''), ReceiveReady 1 2 3]) = Inr 28"
    by (simp del: pdu_len.simps)
  with k e show ?thesis by (intro conjI)
qed

section \<open>Parameter Exchange: the fields of the decoded value\<close>

lemma tlv_loop_steps:
  "tlv_loop step data offset sz st = Inr st' \<Longrightarrow>
   \<exists>ts. tlv_loop (\<lambda>ts t. Inr (ts @ [t])) data offset sz acc = Inr (acc @ ts) \<and>
        tlv_steps step ts st = Inr st'"
proof (induction step data offset sz st arbitrary: acc rule: tlv_loop.induct)
  case (1 step data offset sz st)
  show ?case
  proof (cases "2 \<le> sz")
    case False
    with "1.prems" show ?thesis
      by (simp add: tlv_loop.simps)
  next
    case True
    from "1.prems" True obtain T L V st1 where
      pd: "Parameter_decode data offset sz = Inr (Some (T, L, V))" and
      s: "step st (T, L, V) = Inr st1" and
      rest: "tlv_loop step data (offset + 2 + L) (sz - 2 - L) st1 = Inr st'"
      by (subst (asm) tlv_loop.simps) (auto split: sum.splits option.splits prod.splits)
    from "1.IH" [OF True pd refl refl refl s rest, of "acc @ [(T, L, V)]"]
    obtain ts where
      "tlv_loop (\<lambda>ts t. Inr (ts @ [t])) data (offset + 2 + L) (sz - 2 - L) (acc @ [(T, L, V)])
         = Inr (acc @ [(T, L, V)] @ ts)" and "tlv_steps step ts st1 = Inr st'"
      by auto
    with True pd s show ?thesis
      by (intro exI [of _ "(T, L, V) # ts"]) (simp add: tlv_loop.simps [of _ data offset sz])
  qed
qed

lemma tlv_ints_Cons:
  "tlv_ints T ((T', L, V) # ts) =
     (case V of VInt v \<Rightarrow> if T' = T then v # tlv_ints T ts else tlv_ints T ts
      | _ \<Rightarrow> tlv_ints T ts)"
  by (simp add: tlv_ints_def List.map_filter_simps split: tlv_value.splits)

lemma last_or_Cons: "last_or d (x # xs) = last_or x xs"
  by (simp add: last_or_def)

lemma ParameterExchange_steps:
  "tlv_steps ParameterExchange_tlv ts (version, miu, wks, lto, lsc, dpc)
     = Inr (version', miu', wks', lto', lsc', dpc') \<Longrightarrow>
   miu' = last_or miu (map (\<lambda>v. 128 + v) (tlv_ints MIUX ts)) \<and>
   lto' = last_or lto (map (\<lambda>t. t * 10) (tlv_ints LTO ts)) \<and>
   lsc' = last_or lsc (map (\<lambda>opt. opt AND 3) (tlv_ints OPT ts)) \<and>
   dpc' = last_or dpc (map (\<lambda>opt. drop_bit 2 opt AND 1) (tlv_ints OPT ts))"
proof (induction ts arbitrary: version miu wks lto lsc dpc)
  case Nil
  then show ?case by (simp add: tlv_ints_def last_or_def List.map_filter_simps)
next
  case (Cons t ts)
  obtain T L V where t: "t = (T, L, V)" by (cases t) auto
  from Cons.prems obtain version1 miu1 wks1 lto1 lsc1 dpc1 where
    s: "ParameterExchange_tlv (version, miu, wks, lto, lsc, dpc) (T, L, V)
          = Inr (version1, miu1, wks1, lto1, lsc1, dpc1)" and
    r: "tlv_steps ParameterExchange_tlv ts (version1, miu1, wks1, lto1, lsc1, dpc1)
          = Inr (version', miu', wks', lto', lsc', dpc')"
    unfolding t by (auto split: sum.splits)
  note IH = Cons.IH [OF r]
  from s show ?case
    unfolding t using IH
    by (cases V)
      (auto simp: tlv_ints_Cons last_or_Cons as_int_def as_pair_def andthen_def
        split: if_splits)
qed

text \<open>
  C7. When \<^verbatim>\<open>ParameterExchange.decode\<close> returns a value, its body holds TLVs \<open>ts\<close>
  and the fields of the value are: \<open>miu\<close> is 128 + v for the (last) MIUX TLV's value v,
  and 128 when the body has no MIUX TLV; \<open>lto\<close> is t * 10 for the (last) LTO TLV's
  value t (100 without one); the link service class is \<open>opt AND 3\<close> and the data
  protection flag \<open>drop_bit 2 opt AND 1\<close> for the (last) OPT TLV's value \<open>opt\<close>
  (3 and 0 without one).
\<close>

theorem ParameterExchange_decode_fields:
  assumes "ParameterExchange_decode data offset sz = Inr p"
  shows "\<exists>ts version wks.
     tlv_read data (offset + 2) (sz - 2) = Inr ts \<and>
     p = ParameterExchange 0 0 version
           (last_or 128 (map (\<lambda>v. 128 + v) (tlv_ints MIUX ts))) wks
           (last_or 100 (map (\<lambda>t. t * 10) (tlv_ints LTO ts)))
           (last_or 3 (map (\<lambda>opt. opt AND 3) (tlv_ints OPT ts)))
           (last_or 0 (map (\<lambda>opt. drop_bit 2 opt AND 1) (tlv_ints OPT ts)))"
proof -
  from assms obtain version miu wks lto lsc dpc where
    loop: "tlv_loop ParameterExchange_tlv data (offset + 2) (sz - 2) (Some (1, 0), 128, 3, 100, 3, 0)
             = Inr (version, miu, wks, lto, lsc, dpc)" and
    p: "p = ParameterExchange 0 0 version miu wks lto lsc dpc"
    by (auto simp: ParameterExchange_decode_def andthen_def split: sum.splits if_splits prod.splits)
  from tlv_loop_steps [OF loop, of "[]"] obtain ts where
    "tlv_read data (offset + 2) (sz - 2) = Inr ts" and
    "tlv_steps ParameterExchange_tlv ts (Some (1, 0), 128, 3, 100, 3, 0)
       = Inr (version, miu, wks, lto, lsc, dpc)"
    by (auto simp: tlv_read_def)
  with ParameterExchange_steps [of ts "Some (1, 0)" 128 3 100 3 0 version miu wks lto lsc dpc] p
  show ?thesis by simp
qed

text \<open>
  A Parameter Exchange PDU with the TLVs MIUX = 256, LTO = 7 and OPT = 6: \<open>miu\<close> is
  384, \<open>lto\<close> is 70, the link service class is 2 and the data protection flag 1.
\<close>

theorem ParameterExchange_decode_fields_witness:
  "ParameterExchange_decode
     [0x00, 0x40, 0x02, 0x02, 0x01, 0x00, 0x04, 0x01, 0x07, 0x07, 0x01, 0x06] 0 12
     = Inr (ParameterExchange 0 0 (Some (1, 0)) 384 3 70 2 1) \<and>
   tlv_read [0x00, 0x40, 0x02, 0x02, 0x01, 0x00, 0x04, 0x01, 0x07, 0x07, 0x01, 0x06] 2 10
     = Inr [(MIUX, 2, VInt 256), (LTO, 1, VInt 7), (OPT, 1, VInt 6)] \<and>
   (\<exists>ts version wks.
     tlv_read [0x00, 0x40, 0x02, 0x02, 0x01, 0x00, 0x04, 0x01, 0x07, 0x07, 0x01, 0x06]
       (0 + 2) (12 - 2) = Inr ts \<and>
     ParameterExchange 0 0 (Some (1, 0)) 384 3 70 2 1 =
       ParameterExchange 0 0 version
         (last_or 128 (map (\<lambda>v. 128 + v) (tlv_ints MIUX ts))) wks
         (last_or 100 (map (\<lambda>t. t * 10) (tlv_ints LTO ts)))
         (last_or 3 (map (\<lambda>opt. opt AND 3) (tlv_ints OPT ts)))
         (last_or 0 (map (\<lambda>opt. drop_bit 2 opt AND 1) (tlv_ints OPT ts))))"
proof -
  have d: "ParameterExchange_decode
     [0x00, 0x40, 0x02, 0x02, 0x01, 0x00, 0x04, 0x01, 0x07, 0x07, 0x01, 0x06] 0 12
     = Inr (ParameterExchange 0 0 (Some (1, 0)) 384 3 70 2 1)"
    by code_simp
  have r: "tlv_read [0x00, 0x40, 0x02, 0x02, 0x01, 0x00, 0x04, 0x01, 0x07, 0x07, 0x01, 0x06] 2 10
     = Inr [(MIUX, 2, VInt 256), (LTO, 1, VInt 7), (OPT, 1, VInt 6)]"
    by code_simp
  from ParameterExchange_decode_fields [OF d] d r show ?thesis by blast
qed

section \<open>Round trip of canonical values\<close>

lemma struct_read_nat:
  "0 \<le> off \<Longrightarrow> struct_read n data off =
     (if nat off + n \<le> length data then Inr (take n (drop (nat off) data)) else Inl StructError)"
  by (auto simp: struct_read_def Let_def)

lemma and_mask_int:
  "(x::int) AND 3 = x mod 4" "(x::int) AND 15 = x mod 16" "(x::int) AND 63 = x mod 64"
  "(x::int) AND 1 = x mod 2" "(x::int) AND 0x7FF = x mod 2048"
proof -
  have m: "(3::int) = mask 2" "(15::int) = mask 4" "(63::int) = mask 6"
    "(0x7FF::int) = mask 11"
    by (simp_all add: mask_eq_exp_minus_1)
  show "(x::int) AND 3 = x mod 4" "(x::int) AND 15 = x mod 16" "(x::int) AND 63 = x mod 64"
   "(x::int) AND 0x7FF = x mod 2048"
    unfolding m by (simp_all add: take_bit_eq_mask [symmetric] take_bit_eq_mod)
  show "(x::int) AND 1 = x mod 2" by (simp add: and_one_eq)
qed

lemma divmod_unique:
  fixes q r b :: int
  assumes "0 \<le> r" "r < b"
  shows "(b * q + r) div b = q" "(b * q + r) mod b = r"
  using assms by (auto intro: int_div_pos_eq int_mod_pos_eq)

lemma or_push_add:
  fixes a b :: int
  assumes "0 \<le> b" "b < 2 ^ n"
  shows "push_bit n a OR b = a * 2 ^ n + b"
proof -
  have b: "take_bit n b = b" using assms by (simp add: take_bit_int_eq_self)
  have "push_bit n a OR take_bit n b = take_bit n b + push_bit n a"
    using concat_bit_eq [of n b a] by (simp add: concat_bit_def or.commute)
  then show ?thesis by (simp add: b push_bit_eq_mult)
qed

lemma uint_byte: "0 \<le> x \<Longrightarrow> x \<le> 255 \<Longrightarrow> uint (word_of_int x :: byte) = x"
  by (simp add: uint_word_of_int take_bit_int_eq_self)

lemma uint_byte_length: "n \<le> 255 \<Longrightarrow> uint (word_of_nat n :: byte) = int n"
  using uint_byte [of "int n"] by simp

lemma header_fields:
  fixes dsap ssap ptype :: int
  assumes "0 \<le> dsap" "dsap \<le> 63" "0 \<le> ssap" "ssap \<le> 63" "0 \<le> ptype" "ptype \<le> 15"
  defines "x \<equiv> push_bit 10 dsap OR push_bit 6 ptype OR ssap"
  shows "x div 256 div 4 = dsap" "x mod 256 mod 64 = ssap" "x div 64 mod 16 = ptype"
    "0 \<le> x div 256" "x div 256 \<le> 255" "0 \<le> x" "x \<le> 65535"
proof -
  have 1: "push_bit 6 ptype OR ssap = ptype * 64 + ssap"
    using assms or_push_add [of ssap 6 ptype] by simp
  have 2: "push_bit 10 dsap OR (ptype * 64 + ssap) = dsap * 1024 + (ptype * 64 + ssap)"
    using assms or_push_add [of "ptype * 64 + ssap" 10 dsap] by simp
  have x_def': "x = dsap * 1024 + ptype * 64 + ssap" by (simp add: x_def or.assoc 1 2)
  define ph pl where "ph = ptype div 4" and "pl = ptype mod 4"
  have p: "ptype = 4 * ph + pl" "0 \<le> pl" "pl < 4" by (simp_all add: ph_def pl_def)
  with assms have ph: "0 \<le> ph" "ph \<le> 3" by linarith+
  have x: "x = 256 * (4 * dsap + ph) + (64 * pl + ssap)" by (simp add: x_def' p)
  have hi: "x div 256 = 4 * dsap + ph" unfolding x using assms p by (intro divmod_unique) auto
  have lo: "x mod 256 = 64 * pl + ssap" unfolding x using assms p by (intro divmod_unique) auto
  show "x div 256 div 4 = dsap" unfolding hi using ph by (intro divmod_unique) auto
  show "x mod 256 mod 64 = ssap" unfolding lo using assms by (intro divmod_unique) auto
  have "x = 64 * (16 * dsap + ptype) + ssap" by (simp add: x_def')
  then have "x div 64 = 16 * dsap + ptype" using assms by (simp add: divmod_unique)
  then show "x div 64 mod 16 = ptype" using assms by (simp add: divmod_unique)
  show "0 \<le> x div 256" "x div 256 \<le> 255" unfolding hi using assms ph by auto
  show "0 \<le> x" "x \<le> 65535" unfolding x_def' using assms by auto
qed

lemma encode_header_ok:
  assumes "sap_ok dsap" "sap_ok ssap" "nibble_ok ptype"
  shows "encode_header ptype dsap ssap = Inr (header_of ptype dsap ssap)"
  using assms header_fields(6,7) [of dsap ssap ptype]
  by (simp add: encode_header_def pack_H_def header_of_def sap_ok_def nibble_ok_def)

lemma header_of_read:
  assumes "sap_ok dsap" "sap_ok ssap" "nibble_ok ptype"
  shows "unpack_from_H (pre @ header_of ptype dsap ssap @ rest) (int (length pre))
           = Inr (push_bit 10 dsap OR push_bit 6 ptype OR ssap)"
    and "unpack_from_BB (pre @ header_of ptype dsap ssap @ rest) (int (length pre))
           = Inr ((push_bit 10 dsap OR push_bit 6 ptype OR ssap) div 256,
                  (push_bit 10 dsap OR push_bit 6 ptype OR ssap) mod 256)"
  using assms header_fields(4,5) [of dsap ssap ptype]
  by (simp_all add: unpack_from_H_def unpack_from_BB_def header_of_def struct_read_nat
      andthen_def uint_byte sap_ok_def nibble_ok_def)

lemma header_of_type:
  assumes "sap_ok dsap" "sap_ok ssap" "nibble_ok ptype"
  shows "drop_bit 6 (push_bit 10 dsap OR push_bit 6 ptype OR ssap) AND 15 = ptype"
  using assms header_fields(3) [of dsap ssap ptype]
  by (simp add: and_mask_int drop_bit_eq_div sap_ok_def nibble_ok_def)

lemma header_of_decode:
  assumes "sap_ok dsap" "sap_ok ssap" "nibble_ok ptype" "2 \<le> sz"
  shows "decode_header (pre @ header_of ptype dsap ssap @ rest) (int (length pre)) sz
           = Inr (dsap, ssap)"
  using assms header_fields(1,2) [of dsap ssap ptype]
  by (simp add: decode_header_def header_of_read andthen_def and_mask_int drop_bit_eq_div
      sap_ok_def nibble_ok_def)

lemma header_of_length [simp]: "length (header_of ptype dsap ssap) = 2"
  by (simp add: header_of_def)

lemma Parameter_encode_ok: "tlv_ok T V \<Longrightarrow> Parameter_encode T V = Inr (tlv_bytes T V)"
  by (cases V)
    (auto simp: tlv_ok_def tlv_bytes_def Parameter_encode_def pack_B_def pack_H_def andthen_def
      byte_ok_def nibble_ok_def or_push_add [of _ 4, simplified])

lemma tlv_bytes_length: "tlv_ok T V \<Longrightarrow> length (tlv_bytes T V) = tlv_size T V"
  by (simp add: Parameter_encode_ok Parameter_encode_length)

lemma word16:
  fixes v :: int assumes "0 \<le> v" "v \<le> 65535"
  shows "256 * uint (word_of_int (v div 256) :: byte) + uint (word_of_int (v mod 256) :: byte) = v"
proof -
  have "0 \<le> v div 256" "v div 256 \<le> 255" using assms by auto
  then show ?thesis by (simp add: uint_byte)
qed

lemma version_byte:
  assumes "nibble_ok a" "nibble_ok b"
  shows "0 \<le> push_bit 4 a OR b" "push_bit 4 a OR b \<le> 255"
    "drop_bit 4 (push_bit 4 a OR b) = a" "(push_bit 4 a OR b) AND 15 = b"
proof -
  have x: "push_bit 4 a OR b = 16 * a + b"
    using assms or_push_add [of b 4 a] by (simp add: nibble_ok_def)
  show "0 \<le> push_bit 4 a OR b" "push_bit 4 a OR b \<le> 255"
    unfolding x using assms by (auto simp: nibble_ok_def)
  show "drop_bit 4 (push_bit 4 a OR b) = a" "(push_bit 4 a OR b) AND 15 = b"
    unfolding x using assms by (simp_all add: drop_bit_eq_div and_mask_int divmod_unique nibble_ok_def)
qed

lemma tlv_bytes_simps:
  "byte_ok v \<Longrightarrow> tlv_bytes 4 (VInt v) = [4, 1, word_of_int v]"
  "byte_ok v \<Longrightarrow> tlv_bytes 5 (VInt v) = [5, 1, word_of_int v]"
  "byte_ok v \<Longrightarrow> tlv_bytes 7 (VInt v) = [7, 1, word_of_int v]"
  "0 \<le> v \<Longrightarrow> v \<le> 65535 \<Longrightarrow>
     tlv_bytes 2 (VInt v) = [2, 2, word_of_int (v div 256), word_of_int (v mod 256)]"
  "0 \<le> v \<Longrightarrow> v \<le> 65535 \<Longrightarrow>
     tlv_bytes 3 (VInt v) = [3, 2, word_of_int (v div 256), word_of_int (v mod 256)]"
  "nibble_ok a \<Longrightarrow> nibble_ok b \<Longrightarrow>
     tlv_bytes 1 (VPair a b) = [1, 1, word_of_int (push_bit 4 a OR b)]"
  "byte_ok a \<Longrightarrow> byte_ok b \<Longrightarrow>
     tlv_bytes 9 (VPair a b) = [9, 2, word_of_int a, word_of_int b]"
  "length bs \<le> 255 \<Longrightarrow> tlv_bytes 6 (VBytes bs) = 6 # word_of_nat (length bs) # bs"
  "length bs \<le> 255 \<Longrightarrow> tlv_bytes 10 (VBytes bs) = 10 # word_of_nat (length bs) # bs"
  "length bs \<le> 255 \<Longrightarrow> tlv_bytes 11 (VBytes bs) = 11 # word_of_nat (length bs) # bs"
  "byte_ok tid \<Longrightarrow> length sn \<le> 254 \<Longrightarrow>
     tlv_bytes 8 (VReq tid sn) = 8 # word_of_nat (Suc (length sn)) # word_of_int tid # sn"
  using version_byte(1,2) [of a b]
  by (simp_all add: tlv_bytes_def Parameter_encode_def pack_B_def pack_H_def andthen_def
      byte_ok_def)

lemma unpack_at:
  "unpack_from_BB (pre @ a # b # rest) (int (length pre)) = Inr (uint a, uint b)"
  "unpack_from_H (pre @ a # b # rest) (int (length pre)) = Inr (256 * uint a + uint b)"
  "unpack_from_B (pre @ a # b # c # rest) (int (length pre) + 2) = Inr (uint c)"
  "unpack_from_H (pre @ a # b # c # d # rest) (int (length pre) + 2) = Inr (256 * uint c + uint d)"
  "unpack_from_BB (pre @ a # b # c # d # rest) (int (length pre) + 2) = Inr (uint c, uint d)"
  "unpack_from_Bs (int (length sn)) (pre @ a # b # c # sn @ rest) (int (length pre) + 2)
     = Inr (uint c, sn)"
  "py_slice (pre @ a # b # v @ rest) (int (length pre) + 2) (int (length pre) + 2 + int (length v)) = v"
  by (simp_all add: unpack_from_BB_def unpack_from_B_def unpack_from_H_def unpack_from_Bs_def
      struct_read_nat nat_add_distrib andthen_def py_slice_def slice_index_def Let_def)

lemma Parameter_decode_int1:
  assumes "byte_ok v" "3 \<le> sz" "T = 4 \<or> T = 5 \<or> T = 7"
  shows "Parameter_decode (pre @ word_of_int T # 1 # word_of_int v # rest) (int (length pre)) sz
           = Inr (Some (T, 1, VInt v))"
  using assms
  by (auto simp: Parameter_decode_def unpack_at andthen_def uint_byte byte_ok_def)

lemma uint_byte_Suc: "n \<le> 254 \<Longrightarrow> uint (1 + word_of_nat n :: byte) = 1 + int n"
  using uint_byte [of "1 + int n"] by simp

lemma Parameter_decode_ok:
  assumes "tlv_ok T V" "int (tlv_size T V) \<le> sz"
  shows "Parameter_decode (pre @ tlv_bytes T V @ rest) (int (length pre)) sz
           = Inr (Some (wire (T, V)))"
proof (cases V)
  case (VInt v)
  with assms consider
      "T = MIUX" "0 \<le> v" "v \<le> 0x7FF" | "T = WKS" "0 \<le> v" "v \<le> 65535"
    | "T = LTO" "byte_ok v" | "T = RW" "byte_ok v" | "T = OPT" "byte_ok v"
    by (auto simp: tlv_ok_def)
  then show ?thesis
  proof cases
    case 1
    with assms VInt show ?thesis
      by (simp add: tlv_bytes_simps Parameter_decode_def unpack_at andthen_def word16
          and_mask_int wire_def tlv_size_def)
  next
    case 2
    with assms VInt show ?thesis
      by (simp add: tlv_bytes_simps Parameter_decode_def unpack_at andthen_def word16
          wire_def tlv_size_def)
  next
    case 3
    with assms VInt show ?thesis
      by (simp add: tlv_bytes_simps Parameter_decode_def unpack_at andthen_def uint_byte
          byte_ok_def wire_def tlv_size_def)
  next
    case 4
    with assms VInt show ?thesis
      by (simp add: tlv_bytes_simps Parameter_decode_def unpack_at andthen_def uint_byte
          byte_ok_def wire_def tlv_size_def)
  next
    case 5
    with assms VInt show ?thesis
      by (simp add: tlv_bytes_simps Parameter_decode_def unpack_at andthen_def uint_byte
          byte_ok_def wire_def tlv_size_def)
  qed
next
  case (VPair a b)
  with assms consider "T = VERSION" "nibble_ok a" "nibble_ok b"
    | "T = SDRES" "byte_ok a" "byte_ok b"
    by (auto simp: tlv_ok_def)
  then show ?thesis
  proof cases
    case 1
    with assms VPair version_byte [of a b] show ?thesis
      by (simp add: tlv_bytes_simps Parameter_decode_def unpack_at andthen_def uint_byte
          wire_def tlv_size_def)
  next
    case 2
    with assms VPair show ?thesis
      by (simp add: tlv_bytes_simps Parameter_decode_def unpack_at andthen_def uint_byte
          byte_ok_def wire_def tlv_size_def)
  qed
next
  case (VBytes v)
  with assms have len: "length v \<le> 255" and T: "T = SN \<or> T = ECPK \<or> T = RN"
    by (auto simp: tlv_ok_def)
  from T show ?thesis
  proof (elim disjE)
    assume "T = SN"
    with assms VBytes len show ?thesis
      by (simp add: tlv_bytes_simps Parameter_decode_def unpack_at andthen_def
          uint_byte_length wire_def tlv_size_def)
  next
    assume "T = ECPK"
    with assms VBytes len show ?thesis
      by (simp add: tlv_bytes_simps Parameter_decode_def unpack_at andthen_def
          uint_byte_length wire_def tlv_size_def)
  next
    assume "T = RN"
    with assms VBytes len show ?thesis
      by (simp add: tlv_bytes_simps Parameter_decode_def unpack_at andthen_def
          uint_byte_length wire_def tlv_size_def)
  qed
next
  case (VReq tid sn)
  with assms have "T = SDREQ" "byte_ok tid" "length sn \<le> 254"
    by (auto simp: tlv_ok_def)
  with assms VReq unpack_at(6) [of sn pre 8 "word_of_nat (Suc (length sn))" "word_of_int tid" rest]
  show ?thesis
    by (simp add: tlv_bytes_simps Parameter_decode_def andthen_def unpack_at(1)
        uint_byte uint_byte_Suc byte_ok_def wire_def tlv_size_def)
qed

lemma tlvs_bytes_simps [simp]:
  "tlvs_bytes [] = []"
  "tlvs_bytes ((T, V) # tvs) = tlv_bytes T V @ tlvs_bytes tvs"
  "tlvs_bytes (xs @ ys) = tlvs_bytes xs @ tlvs_bytes ys"
  by (simp_all add: tlvs_bytes_def)

lemma tlv_size_ge2: "2 \<le> tlv_size T V"
  by (simp add: tlv_size_def split: tlv_value.splits)

lemma tlv_loop_encoded:
  assumes "list_all (\<lambda>tv. tlv_ok (fst tv) (snd tv)) tvs"
  shows "tlv_loop step (pre @ tlvs_bytes tvs @ rest) (int (length pre))
           (int (length (tlvs_bytes tvs))) st = tlv_steps step (map wire tvs) st"
  using assms
proof (induction tvs arbitrary: pre st)
  case Nil
  show ?case by (simp add: tlv_loop.simps)
next
  case (Cons tv tvs)
  obtain T V where tv: "tv = (T, V)" by (cases tv) auto
  from Cons.prems tv have ok: "tlv_ok T V" and oks: "list_all (\<lambda>tv. tlv_ok (fst tv) (snd tv)) tvs"
    by auto
  let ?t = "tlv_bytes T V" and ?b = "tlvs_bytes tvs"
  let ?data = "pre @ ?t @ ?b @ rest"
  let ?sz = "int (length ?t + length ?b)"
  have len: "length ?t = tlv_size T V" by (rule tlv_bytes_length [OF ok])
  have ge: "2 \<le> length ?t" using tlv_size_ge2 [of T V] len by simp
  have pd: "Parameter_decode ?data (int (length pre)) ?sz = Inr (Some (wire (T, V)))"
    using Parameter_decode_ok [OF ok, of ?sz pre "?b @ rest"] len by simp
  have w: "wire (T, V) = (T, int (length ?t) - 2, V)" by (simp add: wire_def len)
  have step1: "tlv_loop step ?data (int (length pre)) ?sz st
          = (case step st (wire (T, V)) of Inl e \<Rightarrow> Inl e
             | Inr st' \<Rightarrow> tlv_loop step ?data (int (length pre) + 2 + (int (length ?t) - 2))
                 (?sz - 2 - (int (length ?t) - 2)) st')"
    by (subst tlv_loop.simps, subst pd) (use ge in \<open>simp add: w\<close>)
  have args: "int (length pre) + 2 + (int (length ?t) - 2) = int (length (pre @ ?t))"
    "?sz - 2 - (int (length ?t) - 2) = int (length ?b)"
    by simp_all
  have IH: "tlv_loop step ?data (int (length (pre @ ?t))) (int (length ?b)) st'
              = tlv_steps step (map wire tvs) st'" for st'
    using Cons.IH [OF oks, of "pre @ ?t" st'] by simp
  have d: "pre @ tlvs_bytes (tv # tvs) @ rest = ?data"
    and s: "int (length (tlvs_bytes (tv # tvs))) = ?sz"
    by (simp_all add: tv)
  show ?case
    unfolding d s step1 args IH by (simp add: tv)
qed

lemma tlv_steps_append:
  "tlv_steps step (xs @ ys) st =
     (case tlv_steps step xs st of Inl e \<Rightarrow> Inl e | Inr st' \<Rightarrow> tlv_steps step ys st')"
  by (induction xs arbitrary: st) (auto split: sum.splits)

lemma add_tlv_ok:
  "tlv_ok T V \<Longrightarrow> add_tlv c T V data = Inr (data @ (if c then tlv_bytes T V else []))"
  by (simp add: add_tlv_def Parameter_encode_ok andthen_def)

lemma add_tlvs_ok:
  "list_all (tlv_ok T) Vs \<Longrightarrow> add_tlvs T Vs data = Inr (data @ tlvs_bytes (map (Pair T) Vs))"
  by (induction Vs arbitrary: data) (auto simp: Parameter_encode_ok)

lemma body_loop:
  assumes "list_all (\<lambda>tv. tlv_ok (fst tv) (snd tv)) tvs"
  shows "tlv_loop step (pre @ header_of ptype dsap ssap @ tlvs_bytes tvs @ post)
           (int (length pre) + 2) (int (length (tlvs_bytes tvs))) st
         = tlv_steps step (map wire tvs) st"
  using tlv_loop_encoded [OF assms, of step "pre @ header_of ptype dsap ssap" post st]
  by (simp add: add.commute)

lemma sap_ok_0 [simp]: "sap_ok 0" by (simp add: sap_ok_def)

lemma nibble_ok_numeral [simp]:
  "nibble_ok 0" "nibble_ok 1" "nibble_ok 2" "nibble_ok 3" "nibble_ok 4" "nibble_ok 5"
  "nibble_ok 6" "nibble_ok 7" "nibble_ok 9" "nibble_ok 10" "nibble_ok 12" "nibble_ok 13"
  "nibble_ok 14"
  by (simp_all add: nibble_ok_def)

lemma decode_header_of:
  fixes pre body post :: bytes
  assumes "sap_ok dsap" "sap_ok ssap" "nibble_ok ptype"
  defines "data \<equiv> pre @ header_of ptype dsap ssap @ body @ post"
    and "offset \<equiv> int (length pre)" and "sz \<equiv> 2 + int (length body)"
  shows "decode data offset (Some sz)
         = (case (case pdu_type_map ptype of None \<Rightarrow> UnknownProtocolDataUnit_c | Some c \<Rightarrow> c) of
              Symmetry_c \<Rightarrow> Symmetry_decode data offset sz
              | ParameterExchange_c \<Rightarrow> ParameterExchange_decode data offset sz
              | AggregatedFrame_c \<Rightarrow> AggregatedFrame_decode data offset sz
              | UnnumberedInformation_c \<Rightarrow> UnnumberedInformation_decode data offset sz
              | Connect_c \<Rightarrow> Connect_decode data offset sz
              | Disconnect_c \<Rightarrow> Disconnect_decode data offset sz
              | ConnectionComplete_c \<Rightarrow> ConnectionComplete_decode data offset sz
              | DisconnectedMode_c \<Rightarrow> DisconnectedMode_decode data offset sz
              | FrameReject_c \<Rightarrow> FrameReject_decode data offset sz
              | ServiceNameLookup_c \<Rightarrow> ServiceNameLookup_decode data offset sz
              | DataProtectionSetup_c \<Rightarrow> DataProtectionSetup_decode data offset sz
              | Information_c \<Rightarrow> Information_decode data offset sz
              | ReceiveReady_c \<Rightarrow> ReceiveReady_decode data offset sz
              | ReceiveNotReady_c \<Rightarrow> ReceiveNotReady_decode data offset sz
              | UnknownProtocolDataUnit_c \<Rightarrow> UnknownProtocolDataUnit_decode data offset sz
              | _ \<Rightarrow> Inl AttributeError)"
proof -
  define x where "x = push_bit 10 dsap OR push_bit 6 ptype OR ssap"
  have h: "unpack_from_H data offset = Inr x"
    unfolding data_def offset_def x_def by (rule header_of_read(1) [OF assms(1-3)])
  have t: "drop_bit 6 x AND 15 = ptype"
    unfolding x_def by (rule header_of_type [OF assms(1-3)])
  have l: "\<not> int (length data) < offset + sz" "\<not> sz < 2"
    by (simp_all add: data_def offset_def sz_def)
  show ?thesis
    by (subst decode.simps) (simp only: given_size_def Let_def option.case l if_False h sum.case t)
qed

lemma rt_Symmetry:
  "encode (Symmetry 0 0) = Inr (header_of 0 0 0)" "decodes_to (header_of 0 0 0) (Symmetry 0 0)"
proof -
  show "encode (Symmetry 0 0) = Inr (header_of 0 0 0)"
    by (simp add: Symmetry_encode_def encode_header_ok)
  have "decode (pre @ header_of 0 0 0 @ [] @ post) (int (length pre)) (Some (2 + int (length ([]::bytes))))
          = Inr (Symmetry 0 0)" for pre post
    by (subst decode_header_of)
      (simp_all add: pdu_type_map_def Symmetry_decode_def header_of_decode andthen_def)
  then show "decodes_to (header_of 0 0 0) (Symmetry 0 0)"
    by (simp add: decodes_to_def)
qed

lemma decodes_toI:
  assumes "\<And>pre post. decode (pre @ header_of k d s @ body @ post) (int (length pre))
             (Some (2 + int (length body))) = Inr v"
  shows "decodes_to (header_of k d s @ body) v"
  using assms by (simp add: decodes_to_def add.commute)

lemma after_header:
  assumes "length h = 2"
  shows "py_slice (pre @ h @ body @ post) (int (length pre) + 2)
           (int (length pre) + (2 + int (length body))) = body"
    and "unpack_from_B (pre @ h @ c # rest) (int (length pre) + 2) = Inr (uint c)"
  using assms
  by (simp_all add: py_slice_def slice_index_def Let_def nat_add_distrib unpack_from_B_def
      struct_read_nat andthen_def)

lemma rt_Disconnect:
  assumes "canonical (Disconnect dsap ssap)"
  shows "\<exists>b. encode (Disconnect dsap ssap) = Inr b \<and> decodes_to b (Disconnect dsap ssap)"
proof -
  from assms have s: "sap_ok dsap" "sap_ok ssap" by simp_all
  have "encode (Disconnect dsap ssap) = Inr (header_of 5 dsap ssap @ [])"
    using s by (simp add: Disconnect_encode_def encode_header_ok)
  moreover have "decodes_to (header_of 5 dsap ssap @ []) (Disconnect dsap ssap)"
    by (rule decodes_toI, subst decode_header_of)
      (use s in \<open>simp_all add: pdu_type_map_def Disconnect_decode_def header_of_decode andthen_def\<close>)
  ultimately show ?thesis by blast
qed

lemma rt_UnnumberedInformation:
  assumes "canonical (UnnumberedInformation dsap ssap data)"
  shows "\<exists>b. encode (UnnumberedInformation dsap ssap data) = Inr b
           \<and> decodes_to b (UnnumberedInformation dsap ssap data)"
proof -
  from assms have s: "sap_ok dsap" "sap_ok ssap" by simp_all
  have "encode (UnnumberedInformation dsap ssap data) = Inr (header_of 3 dsap ssap @ data)"
    using s by (simp add: UnnumberedInformation_encode_def encode_header_ok andthen_def)
  moreover have "decodes_to (header_of 3 dsap ssap @ data) (UnnumberedInformation dsap ssap data)"
    by (rule decodes_toI, subst decode_header_of)
      (use s in \<open>simp_all add: pdu_type_map_def UnnumberedInformation_decode_def
         header_of_decode andthen_def after_header\<close>)
  ultimately show ?thesis by blast
qed

lemma rt_DisconnectedMode:
  assumes "canonical (DisconnectedMode dsap ssap reason)"
  shows "\<exists>b. encode (DisconnectedMode dsap ssap reason) = Inr b
           \<and> decodes_to b (DisconnectedMode dsap ssap reason)"
proof -
  from assms have s: "sap_ok dsap" "sap_ok ssap" and r: "0 \<le> reason" "reason \<le> 255"
    by (simp_all add: byte_ok_def)
  have "encode (DisconnectedMode dsap ssap reason)
          = Inr (header_of 7 dsap ssap @ [word_of_int reason])"
    using s r by (simp add: DisconnectedMode_encode_def encode_header_ok andthen_def pack_B_def)
  moreover have "decodes_to (header_of 7 dsap ssap @ [word_of_int reason])
                   (DisconnectedMode dsap ssap reason)"
    by (rule decodes_toI, subst decode_header_of)
      (use s r in \<open>simp_all add: pdu_type_map_def DisconnectedMode_decode_def
         header_of_decode andthen_def after_header uint_byte\<close>)
  ultimately show ?thesis by blast
qed

lemma tlv_ok_simps:
  "tlv_ok 1 (VPair a b) = (nibble_ok a \<and> nibble_ok b)"
  "tlv_ok 2 (VInt v) = (0 \<le> v \<and> v \<le> 2047)"
  "tlv_ok 3 (VInt v) = (0 \<le> v \<and> v \<le> 65535)"
  "tlv_ok 4 (VInt v) = byte_ok v"
  "tlv_ok 5 (VInt v) = byte_ok v"
  "tlv_ok 6 (VBytes bs) = (length bs \<le> 255)"
  "tlv_ok 7 (VInt v) = byte_ok v"
  "tlv_ok 8 (VReq tid sn) = (byte_ok tid \<and> length sn \<le> 254)"
  "tlv_ok 9 (VPair a b) = (byte_ok a \<and> byte_ok b)"
  "tlv_ok 10 (VBytes bs) = (length bs \<le> 255)"
  "tlv_ok 11 (VBytes bs) = (length bs \<le> 255)"
  by (simp_all add: tlv_ok_def)

lemma add_tlv_simps:
  "add_tlv False T V data = Inr data"
  "tlv_ok T V \<Longrightarrow> add_tlv True T V data = Inr (data @ tlv_bytes T V)"
  by (simp_all add: add_tlv_ok) (simp add: add_tlv_def)

lemma rt_Connect:
  assumes "canonical (Connect dsap ssap miu rw sn)"
  shows "\<exists>b. encode (Connect dsap ssap miu rw sn) = Inr b
           \<and> decodes_to b (Connect dsap ssap miu rw sn)"
proof -
  from assms have s: "sap_ok dsap" "sap_ok ssap"
    and m: "128 \<le> miu" "miu \<le> 2175" and r: "1 \<le> rw" "rw \<le> 255" and n: "length sn \<le> 255"
    by (simp_all add: miu_ok_def rw_ok_def)
  define tvs where "tvs = (if 128 < miu then [(MIUX, VInt (miu - 128))] else [])
      @ (if rw = 1 then [] else [(RW, VInt rw)]) @ (if sn = [] then [] else [(SN, VBytes sn)])"
  have oks: "list_all (\<lambda>tv. tlv_ok (fst tv) (snd tv)) tvs"
    using m r n by (simp add: tvs_def tlv_ok_simps byte_ok_def)
  have enc: "encode (Connect dsap ssap miu rw sn) = Inr (header_of 4 dsap ssap @ tlvs_bytes tvs)"
    using s m r n
    by (simp add: Connect_encode_def encode_header_ok andthen_def add_tlv_simps tlv_ok_simps
        byte_ok_def tvs_def)
  have steps: "tlv_steps Connect_tlv (map wire tvs) (128, 1, []) = Inr (miu, rw, sn)"
    using m by (simp add: tvs_def wire_def as_int_def as_bytes_def andthen_def)
  have "decodes_to (header_of 4 dsap ssap @ tlvs_bytes tvs) (Connect dsap ssap miu rw sn)"
    by (rule decodes_toI, subst decode_header_of)
      (use s in \<open>simp_all add: pdu_type_map_def Connect_decode_def header_of_decode andthen_def
         body_loop [OF oks] steps\<close>)
  with enc show ?thesis by blast
qed

lemma rt_ConnectionComplete:
  assumes "canonical (ConnectionComplete dsap ssap miu rw)"
  shows "\<exists>b. encode (ConnectionComplete dsap ssap miu rw) = Inr b
           \<and> decodes_to b (ConnectionComplete dsap ssap miu rw)"
proof -
  from assms have s: "sap_ok dsap" "sap_ok ssap"
    and m: "128 \<le> miu" "miu \<le> 2175" and r: "1 \<le> rw" "rw \<le> 255"
    by (simp_all add: miu_ok_def rw_ok_def)
  define tvs where "tvs = (if 128 < miu then [(MIUX, VInt (miu - 128))] else [])
      @ (if rw = 1 then [] else [(RW, VInt rw)])"
  have oks: "list_all (\<lambda>tv. tlv_ok (fst tv) (snd tv)) tvs"
    using m r by (simp add: tvs_def tlv_ok_simps byte_ok_def)
  have enc: "encode (ConnectionComplete dsap ssap miu rw)
               = Inr (header_of 6 dsap ssap @ tlvs_bytes tvs)"
    using s m r
    by (simp add: ConnectionComplete_encode_def encode_header_ok andthen_def add_tlv_simps
        tlv_ok_simps byte_ok_def tvs_def)
  have steps: "tlv_steps ConnectionComplete_tlv (map wire tvs) (128, 1) = Inr (miu, rw)"
    using m by (simp add: tvs_def wire_def as_int_def andthen_def)
  have "decodes_to (header_of 6 dsap ssap @ tlvs_bytes tvs) (ConnectionComplete dsap ssap miu rw)"
    by (rule decodes_toI, subst decode_header_of)
      (use s in \<open>simp_all add: pdu_type_map_def ConnectionComplete_decode_def header_of_decode
         andthen_def body_loop [OF oks] steps\<close>)
  with enc show ?thesis by blast
qed

lemma opt_byte:
  fixes lsc dpc :: int
  assumes "0 \<le> lsc" "lsc \<le> 3" "0 \<le> dpc" "dpc \<le> 1"
  shows "0 \<le> push_bit 2 dpc OR lsc" "push_bit 2 dpc OR lsc \<le> 255"
    "(push_bit 2 dpc OR lsc) AND 3 = lsc" "drop_bit 2 (push_bit 2 dpc OR lsc) AND 1 = dpc"
proof -
  have x: "push_bit 2 dpc OR lsc = 4 * dpc + lsc"
    using assms or_push_add [of lsc 2 dpc] by simp
  show "0 \<le> push_bit 2 dpc OR lsc" "push_bit 2 dpc OR lsc \<le> 255"
    unfolding x using assms by auto
  show "(push_bit 2 dpc OR lsc) AND 3 = lsc"
    unfolding x using assms by (simp add: and_mask_int divmod_unique)
  have "(4 * dpc + lsc) div 4 = dpc" using assms by (simp add: divmod_unique)
  then show "drop_bit 2 (push_bit 2 dpc OR lsc) AND 1 = dpc"
    unfolding x using assms by (simp add: and_mask_int drop_bit_eq_div)
qed

lemma rt_ParameterExchange:
  assumes "canonical (ParameterExchange dsap ssap version miu wks lto lsc dpc)"
  shows "\<exists>b. encode (ParameterExchange dsap ssap version miu wks lto lsc dpc) = Inr b
           \<and> decodes_to b (ParameterExchange dsap ssap version miu wks lto lsc dpc)"
proof -
  from assms obtain major minor where v: "version = Some (major, minor)"
    and vn: "nibble_ok major" "nibble_ok minor"
    by (auto split: option.splits)
  from assms have z: "dsap = 0" "ssap = 0"
    and m: "128 \<le> miu" "miu \<le> 2175" and w: "1 \<le> wks" "wks \<le> 65535"
    and l: "10 \<le> lto" "lto \<le> 2550" "lto mod 10 = 0"
    and o: "0 \<le> lsc" "lsc \<le> 3" "0 \<le> dpc" "dpc \<le> 1" "0 < lsc + dpc"
    by (simp_all add: miu_ok_def)
  define opt where "opt = push_bit 2 dpc OR lsc"
  note ob = opt_byte [OF o(1-4), folded opt_def]
  have l10: "lto div 10 * 10 = lto" "0 \<le> lto div 10" "lto div 10 \<le> 255"
    using l by auto
  define tvs where "tvs = [(VERSION, VPair major minor)]
      @ (if 128 < miu then [(MIUX, VInt (miu - 128))] else []) @ [(WKS, VInt wks)]
      @ (if lto = 100 then [] else [(LTO, VInt (lto div 10))]) @ [(OPT, VInt opt)]"
  have oks: "list_all (\<lambda>tv. tlv_ok (fst tv) (snd tv)) tvs"
    using vn m w l10 ob by (simp add: tvs_def tlv_ok_simps byte_ok_def)
  have enc: "encode (ParameterExchange dsap ssap version miu wks lto lsc dpc)
               = Inr (header_of 1 0 0 @ tlvs_bytes tvs)"
    using vn m w l l10 o ob
    by (simp add: ParameterExchange_encode_def encode_header_ok andthen_def add_tlv_simps
        tlv_ok_simps byte_ok_def tvs_def v z opt_def [symmetric])
  have steps: "tlv_steps ParameterExchange_tlv (map wire tvs) (Some (1, 0), 128, 3, 100, 3, 0)
                 = Inr (version, miu, wks, lto, lsc, dpc)"
    using m l10 ob by (simp add: tvs_def wire_def as_int_def as_pair_def andthen_def v)
  have "decodes_to (header_of 1 0 0 @ tlvs_bytes tvs)
          (ParameterExchange dsap ssap version miu wks lto lsc dpc)"
    by (rule decodes_toI, subst decode_header_of)
      (simp_all add: pdu_type_map_def ParameterExchange_decode_def header_of_decode
         andthen_def body_loop [OF oks] steps z)
  with enc show ?thesis by blast
qed

lemma add_tlvs_ok':
  "list_all (\<lambda>tv. tlv_ok (fst tv) (snd tv)) (map (Pair T) Vs) \<Longrightarrow>
   add_tlvs T Vs data = Inr (data @ tlvs_bytes (map (Pair T) Vs))"
  by (induction Vs arbitrary: data) (auto simp: Parameter_encode_ok)

lemma snl_steps_res:
  "tlv_steps ServiceNameLookup_tlv (map wire (map (Pair 9) (map (\<lambda>(tid, sap). VPair tid sap) xs)))
     (rq, rs) = Inr (rq, rs @ xs)"
  by (induction xs arbitrary: rs)
    (auto simp: wire_def as_pair_def as_req_def andthen_def)

lemma snl_steps_req:
  "tlv_steps ServiceNameLookup_tlv (map wire (map (Pair 8) (map (\<lambda>(tid, sn). VReq tid sn) xs)))
     (rq, rs) = Inr (rq @ xs, rs)"
  by (induction xs arbitrary: rq)
    (auto simp: wire_def as_pair_def as_req_def andthen_def)

lemma rt_ServiceNameLookup:
  assumes "canonical (ServiceNameLookup dsap ssap sdreq sdres)"
  shows "\<exists>b. encode (ServiceNameLookup dsap ssap sdreq sdres) = Inr b
           \<and> decodes_to b (ServiceNameLookup dsap ssap sdreq sdres)"
proof -
  from assms have s: "sap_ok dsap" "sap_ok ssap"
    and q: "list_all (\<lambda>r. byte_ok (fst r) \<and> length (snd r) \<le> 254) sdreq"
    and r: "list_all (\<lambda>r. byte_ok (fst r) \<and> byte_ok (snd r)) sdres"
    by simp_all
  define res where "res = map (Pair (9::int)) (map (\<lambda>(tid, sap). VPair tid sap) sdres)"
  define req where "req = map (Pair (8::int)) (map (\<lambda>(tid, sn). VReq tid sn) sdreq)"
  have ok_res: "list_all (\<lambda>tv. tlv_ok (fst tv) (snd tv)) res"
    using r by (auto simp: res_def list_all_iff tlv_ok_simps)
  have ok_req: "list_all (\<lambda>tv. tlv_ok (fst tv) (snd tv)) req"
    using q by (auto simp: req_def list_all_iff tlv_ok_simps)
  have oks: "list_all (\<lambda>tv. tlv_ok (fst tv) (snd tv)) (res @ req)"
    using ok_res ok_req by simp
  have enc: "encode (ServiceNameLookup dsap ssap sdreq sdres)
               = Inr (header_of 9 dsap ssap @ tlvs_bytes (res @ req))"
    using s add_tlvs_ok' [OF ok_res [unfolded res_def]] add_tlvs_ok' [OF ok_req [unfolded req_def]]
    by (simp add: ServiceNameLookup_encode_def encode_header_ok andthen_def res_def req_def)
  have steps: "tlv_steps ServiceNameLookup_tlv (map wire (res @ req)) ([], []) = Inr (sdreq, sdres)"
    using snl_steps_res [of sdres "[]" "[]"] snl_steps_req [of sdreq "[]" sdres]
    by (simp add: tlv_steps_append res_def req_def)
  have "decodes_to (header_of 9 dsap ssap @ tlvs_bytes (res @ req))
          (ServiceNameLookup dsap ssap sdreq sdres)"
    by (rule decodes_toI, subst decode_header_of)
      (use s in \<open>simp_all add: pdu_type_map_def ServiceNameLookup_decode_def header_of_decode
         andthen_def body_loop [OF oks] steps del: tlvs_bytes_simps(3) map_append\<close>)
  with enc show ?thesis by blast
qed

lemma rt_DataProtectionSetup:
  assumes "canonical (DataProtectionSetup dsap ssap ecpk rn)"
  shows "\<exists>b. encode (DataProtectionSetup dsap ssap ecpk rn) = Inr b
           \<and> decodes_to b (DataProtectionSetup dsap ssap ecpk rn)"
proof -
  from assms have s: "sap_ok dsap" "sap_ok ssap" and v: "value_ok ecpk" "value_ok rn"
    by simp_all
  define tvs where "tvs = (case ecpk of None \<Rightarrow> [] | Some v \<Rightarrow> [(ECPK, VBytes v)])
      @ (case rn of None \<Rightarrow> [] | Some v \<Rightarrow> [(RN, VBytes v)])"
  have oks: "list_all (\<lambda>tv. tlv_ok (fst tv) (snd tv)) tvs"
    using v by (simp add: tvs_def tlv_ok_simps value_ok_def split: option.splits)
  have enc: "encode (DataProtectionSetup dsap ssap ecpk rn)
               = Inr (header_of 10 dsap ssap @ tlvs_bytes tvs)"
    using s v
    by (simp add: DataProtectionSetup_encode_def encode_header_ok andthen_def add_tlv_simps
        tlv_ok_simps value_ok_def tvs_def split: option.splits)
  have steps: "tlv_steps DataProtectionSetup_tlv (map wire tvs) (None, None) = Inr (ecpk, rn)"
    by (simp add: tvs_def wire_def as_bytes_def andthen_def split: option.splits)
  have "decodes_to (header_of 10 dsap ssap @ tlvs_bytes tvs)
          (DataProtectionSetup dsap ssap ecpk rn)"
    by (rule decodes_toI, subst decode_header_of)
      (use s in \<open>simp_all add: pdu_type_map_def DataProtectionSetup_decode_def header_of_decode
         andthen_def body_loop [OF oks] steps\<close>)
  with enc show ?thesis by blast
qed

lemma numbered_header_decode:
  assumes "sap_ok dsap" "sap_ok ssap" "nibble_ok ptype" "3 \<le> sz"
  shows "numbered_decode_header (pre @ header_of ptype dsap ssap @ c # rest) (int (length pre)) sz
           = Inr (dsap, ssap, drop_bit 4 (uint c), uint c AND 15)"
proof -
  have "decode_header (pre @ header_of ptype dsap ssap @ c # rest) (int (length pre)) sz
          = Inr (dsap, ssap)"
    using assms by (intro header_of_decode) auto
  then show ?thesis
    using assms(4)
    by (auto simp: numbered_decode_header_def decode_header_def unpack_from_BBB_def
        unpack_from_BB_def struct_read_nat andthen_def header_of_def split: if_splits)
qed

lemma sequence_byte:
  fixes n nr :: int
  assumes "nibble_ok n" "nibble_ok nr"
  defines "x \<equiv> (if \<not> n = 0 then push_bit 4 n else 0) OR nr"
  shows "0 \<le> x" "x \<le> 255" "drop_bit 4 x = n" "x AND 15 = nr"
proof -
  have x: "x = 16 * n + nr"
    using assms or_push_add [of nr 4 n] by (auto simp: nibble_ok_def)
  show "0 \<le> x" "x \<le> 255" unfolding x using assms by (auto simp: nibble_ok_def)
  show "drop_bit 4 x = n" "x AND 15 = nr"
    unfolding x using assms
    by (simp_all add: drop_bit_eq_div and_mask_int divmod_unique nibble_ok_def)
qed

lemma numbered_encode_header_ok:
  assumes "sap_ok dsap" "sap_ok ssap" "nibble_ok ptype" "nibble_ok nr"
    "case ns of None \<Rightarrow> True | Some n \<Rightarrow> nibble_ok n"
  shows "numbered_encode_header ptype dsap ssap ns nr
           = Inr (header_of ptype dsap ssap
                  @ [word_of_int ((case ns of None \<Rightarrow> 0
                                   | Some n \<Rightarrow> if \<not> n = 0 then push_bit 4 n else 0) OR nr)])"
proof (cases ns)
  case None
  with assms header_fields(6,7) [of dsap ssap ptype] show ?thesis
    by (simp add: numbered_encode_header_def pack_H_def pack_B_def andthen_def header_of_def
        sap_ok_def nibble_ok_def)
next
  case (Some n)
  with assms header_fields(6,7) [of dsap ssap ptype] sequence_byte(1,2) [of n nr] show ?thesis
    by (simp add: numbered_encode_header_def pack_H_def pack_B_def andthen_def header_of_def
        sap_ok_def nibble_ok_def)
qed

lemma after_numbered_header:
  assumes "length h = 2"
  shows "py_slice (pre @ h @ c # body @ post) (int (length pre) + 3)
           (int (length pre) + (3 + int (length body))) = body"
  using assms
  by (simp add: py_slice_def slice_index_def Let_def nat_add_distrib)

lemma rt_Information:
  assumes "canonical (Information dsap ssap ns nr data)"
  shows "\<exists>b. encode (Information dsap ssap ns nr data) = Inr b
           \<and> decodes_to b (Information dsap ssap ns nr data)"
proof -
  from assms obtain n where n: "ns = Some n" "nibble_ok n"
    by (auto split: option.splits)
  from assms have s: "sap_ok dsap" "sap_ok ssap" and r: "nibble_ok nr" by simp_all
  define x where "x = (if \<not> n = 0 then push_bit 4 n else 0) OR nr"
  note sb = sequence_byte [OF n(2) r, folded x_def]
  have enc: "encode (Information dsap ssap ns nr data)
               = Inr (header_of 12 dsap ssap @ word_of_int x # data)"
    using s r n numbered_encode_header_ok [of dsap ssap 12 nr ns]
    by (simp add: Information_encode_def andthen_def x_def)
  have "decodes_to (header_of 12 dsap ssap @ word_of_int x # data)
          (Information dsap ssap ns nr data)"
    by (rule decodes_toI, subst decode_header_of)
      (use s sb in \<open>simp_all add: pdu_type_map_def Information_decode_def numbered_header_decode
         andthen_def after_numbered_header uint_byte n\<close>)
  with enc show ?thesis by blast
qed

lemma rt_ReceiveReady:
  assumes "canonical (ReceiveReady dsap ssap nr)"
  shows "\<exists>b. encode (ReceiveReady dsap ssap nr) = Inr b \<and> decodes_to b (ReceiveReady dsap ssap nr)"
proof -
  from assms have s: "sap_ok dsap" "sap_ok ssap" and r: "nibble_ok nr" by simp_all
  note sb = sequence_byte [of 0 nr, simplified, OF r]
  have enc: "encode (ReceiveReady dsap ssap nr) = Inr (header_of 13 dsap ssap @ [word_of_int nr])"
    using s r numbered_encode_header_ok [of dsap ssap 13 nr None]
    by (simp add: ReceiveReady_encode_def)
  have "decodes_to (header_of 13 dsap ssap @ [word_of_int nr]) (ReceiveReady dsap ssap nr)"
    by (rule decodes_toI, subst decode_header_of)
      (use s sb in \<open>simp_all add: pdu_type_map_def ReceiveReady_decode_def numbered_header_decode
         andthen_def uint_byte\<close>)
  with enc show ?thesis by blast
qed

lemma rt_ReceiveNotReady:
  assumes "canonical (ReceiveNotReady dsap ssap nr)"
  shows "\<exists>b. encode (ReceiveNotReady dsap ssap nr) = Inr b
           \<and> decodes_to b (ReceiveNotReady dsap ssap nr)"
proof -
  from assms have s: "sap_ok dsap" "sap_ok ssap" and r: "nibble_ok nr" by simp_all
  note sb = sequence_byte [of 0 nr, simplified, OF r]
  have enc: "encode (ReceiveNotReady dsap ssap nr)
               = Inr (header_of 14 dsap ssap @ [word_of_int nr])"
    using s r numbered_encode_header_ok [of dsap ssap 14 nr None]
    by (simp add: ReceiveNotReady_encode_def)
  have "decodes_to (header_of 14 dsap ssap @ [word_of_int nr]) (ReceiveNotReady dsap ssap nr)"
    by (rule decodes_toI, subst decode_header_of)
      (use s sb in \<open>simp_all add: pdu_type_map_def ReceiveNotReady_decode_def
         numbered_header_decode andthen_def uint_byte\<close>)
  with enc show ?thesis by blast
qed

lemma canonical_known:
  "canonical p \<Longrightarrow> known p" "canonical_all ps \<Longrightarrow> known_all ps"
  by (induction p and ps rule: canonical_canonical_all.induct) auto

lemma frames_simps [simp]:
  "frames [] = []"
  "frames (b # bs) = word_of_int (int (length b) div 256)
                       # word_of_int (int (length b) mod 256) # b @ frames bs"
  by (simp_all add: frames_def)

lemma AggregatedFrame_join_ok:
  "list_all (\<lambda>b. length b \<le> 65535) bs \<Longrightarrow>
   AggregatedFrame_join data bs = Inr (data @ frames bs)"
  by (induction bs arbitrary: data) (auto simp: pack_H_def)

lemma AggregatedFrame_loop_ok:
  assumes "list_all2 (\<lambda>p b. decodes_to b p \<and> length b \<le> 65535) ps bs"
  shows "AggregatedFrame_loop (pre @ frames bs @ post) (int (length pre))
           (int (length (frames bs))) agg = Inr (agg @ ps)"
  using assms
proof (induction ps bs arbitrary: pre agg rule: list_all2_induct)
  case Nil
  show ?case by (simp add: AggregatedFrame_loop.simps)
next
  case (Cons p ps b bs)
  let ?hi = "word_of_int (int (length b) div 256) :: byte"
  let ?lo = "word_of_int (int (length b) mod 256) :: byte"
  let ?data = "pre @ ?hi # ?lo # b @ frames bs @ post"
  let ?sz = "int (length (frames (b # bs)))"
  from Cons.hyps have d: "decodes_to b p" and l: "length b \<le> 65535" by simp_all
  have h: "unpack_from_H ?data (int (length pre)) = Inr (int (length b))"
    using l by (simp add: unpack_at(2) word16)
  have dec: "decode ?data (int (length pre) + 2) (Some (int (length b))) = Inr p"
    using d [unfolded decodes_to_def, THEN conjunct2, rule_format, of "pre @ [?hi, ?lo]" "frames bs @ post"]
    by (simp add: add.commute)
  have pos: "0 < ?sz" by simp
  have step: "AggregatedFrame_loop ?data (int (length pre)) ?sz agg
      = AggregatedFrame_loop ?data (int (length pre) + 2 + int (length b))
          (?sz - 2 - int (length b)) (agg @ [p])"
    by (subst AggregatedFrame_loop.simps) (simp only: pos if_True h sum.case dec)
  have args: "int (length pre) + 2 + int (length b) = int (length (pre @ ?hi # ?lo # b))"
    "?sz - 2 - int (length b) = int (length (frames bs))"
    by simp_all
  have IH: "AggregatedFrame_loop ?data (int (length (pre @ ?hi # ?lo # b)))
              (int (length (frames bs))) (agg @ [p]) = Inr ((agg @ [p]) @ ps)"
    using Cons.IH [of "pre @ ?hi # ?lo # b" "agg @ [p]"] by simp
  have data: "pre @ frames (b # bs) @ post = ?data" by simp
  show ?case
    unfolding data step args IH by simp
qed

lemma aggregate_encoded:
  assumes "\<And>p. p \<in> set ps \<Longrightarrow> canonical p \<Longrightarrow> \<exists>b. encode p = Inr b \<and> decodes_to b p"
    and "canonical_all ps"
  shows "\<exists>bs. encode_aggregate ps = Inr bs
           \<and> list_all2 (\<lambda>p b. decodes_to b p \<and> length b \<le> 65535) ps bs"
  using assms
proof (induction ps)
  case Nil
  then show ?case by simp
next
  case (Cons p ps)
  from Cons.prems(2) obtain n where c: "canonical p" and n: "pdu_len p = Inr n" "n \<le> 65535"
    and cs: "canonical_all ps"
    by (auto split: sum.splits)
  from Cons.prems(1) [of p] c obtain b where b: "encode p = Inr b" "decodes_to b p" by auto
  from len_encode(1) [OF canonical_known(1) [OF c] b(1)] n have "length b \<le> 65535" by simp
  moreover from Cons.IH [OF _ cs] Cons.prems(1) obtain bs where
    "encode_aggregate ps = Inr bs" "list_all2 (\<lambda>p b. decodes_to b p \<and> length b \<le> 65535) ps bs"
    by auto
  ultimately show ?case using b by simp
qed

lemma rt_AggregatedFrame:
  assumes "\<And>p. p \<in> set ps \<Longrightarrow> canonical p \<Longrightarrow> \<exists>b. encode p = Inr b \<and> decodes_to b p"
    and "canonical (AggregatedFrame dsap ssap ps)"
  shows "\<exists>b. encode (AggregatedFrame dsap ssap ps) = Inr b
           \<and> decodes_to b (AggregatedFrame dsap ssap ps)"
proof -
  from assms(2) have z: "dsap = 0" "ssap = 0" and cs: "canonical_all ps" by simp_all
  from aggregate_encoded [OF assms(1) cs] obtain bs where
    bs: "encode_aggregate ps = Inr bs"
    and rel: "list_all2 (\<lambda>p b. decodes_to b p \<and> length b \<le> 65535) ps bs"
    by blast
  from rel have "list_all (\<lambda>b. length b \<le> 65535) bs"
    by (induction rule: list_all2_induct) auto
  then have enc: "encode (AggregatedFrame dsap ssap ps) = Inr (header_of 2 0 0 @ frames bs)"
    by (simp add: z encode_header_ok bs AggregatedFrame_join_ok)
  have loop: "AggregatedFrame_loop (pre @ header_of 2 0 0 @ frames bs @ post)
                (int (length pre) + 2) (int (length (frames bs))) [] = Inr ps" for pre post
    using AggregatedFrame_loop_ok [OF rel, of "pre @ header_of 2 0 0" post "[]"]
    by (simp add: add.commute)
  have "decodes_to (header_of 2 0 0 @ frames bs) (AggregatedFrame dsap ssap ps)"
    by (rule decodes_toI, subst decode_header_of)
      (simp_all add: pdu_type_map_def AggregatedFrame_decode.simps header_of_decode loop z)
  with enc show ?thesis by blast
qed

lemma canonical_decodes:
  "canonical v \<Longrightarrow> \<exists>b. encode v = Inr b \<and> decodes_to b v"
proof (induction v)
  case (Symmetry dsap ssap)
  then show ?case using rt_Symmetry by auto
next
  case (AggregatedFrame dsap ssap aggregate)
  then show ?case by (intro rt_AggregatedFrame) auto
qed (simp_all only: rt_ParameterExchange rt_UnnumberedInformation rt_Connect rt_Disconnect
      rt_ConnectionComplete rt_DisconnectedMode rt_ServiceNameLookup rt_DataProtectionSetup
      rt_Information rt_ReceiveReady rt_ReceiveNotReady canonical.simps)

lemma decode_default_size:
  "decode data offset None = decode data offset (Some (int (length data)))"
  by (simp add: decode.simps given_size_def)

text \<open>
  C1, amended. For every canonical value \<open>v\<close> (a value of a known variant other than
  Frame Reject, with every field in the range the wire format carries), \<^verbatim>\<open>encode\<close>
  returns bytes \<open>b\<close>, \<^verbatim>\<open>decode(b)\<close> is \<open>v\<close> field by field, and
  \<^verbatim>\<open>encode(decode(b))\<close> is \<open>b\<close> again.
\<close>

theorem roundtrip_canonical:
  assumes "canonical v"
  shows "\<exists>b. encode v = Inr b \<and> decode b 0 None = Inr v
           \<and> andthen (decode b 0 None) encode = Inr b"
proof -
  from canonical_decodes [OF assms] obtain b where b: "encode v = Inr b" "decodes_to b v"
    by blast
  from b(2) have "decode ([] @ b @ []) (int (length ([] :: bytes))) (Some (int (length b))) = Inr v"
    unfolding decodes_to_def by blast
  then have "decode b 0 None = Inr v"
    by (simp add: decode_default_size)
  with b(1) show ?thesis by (simp add: andthen_def)
qed

theorem roundtrip_canonical_witness:
  "canonical (AggregatedFrame 0 0
      [Connect 2 32 128 1 (map of_char ''urn:nfc:sn:snep''),
       ParameterExchange 0 0 (Some (1, 1)) 1024 3 500 3 1]) \<and>
   (\<exists>b. encode (AggregatedFrame 0 0
            [Connect 2 32 128 1 (map of_char ''urn:nfc:sn:snep''),
             ParameterExchange 0 0 (Some (1, 1)) 1024 3 500 3 1]) = Inr b
        \<and> decode b 0 None = Inr (AggregatedFrame 0 0
            [Connect 2 32 128 1 (map of_char ''urn:nfc:sn:snep''),
             ParameterExchange 0 0 (Some (1, 1)) 1024 3 500 3 1])
        \<and> andthen (decode b 0 None) encode = Inr b)"
proof -
  have c: "canonical (AggregatedFrame 0 0
      [Connect 2 32 128 1 (map of_char ''urn:nfc:sn:snep''),
       ParameterExchange 0 0 (Some (1, 1)) 1024 3 500 3 1])"
    by (simp add: sap_ok_def nibble_ok_def miu_ok_def rw_ok_def Connect_len_def
        ParameterExchange_len_def)
  from roundtrip_canonical [OF c] c show ?thesis by (rule conjI [rotated])
qed

text \<open>
  C1 as stated fails in both directions. The two bytes \<^verbatim>\<open>00 40\<close> are a Parameter
  Exchange PDU without TLVs; \<^verbatim>\<open>decode\<close> accepts them and returns the value with the
  defaults, which \<^verbatim>\<open>encode\<close> writes as twelve bytes. A Parameter Exchange value with
  \<open>lto = 105\<close> encodes its timeout in units of 10 and decodes with \<open>lto = 100\<close>.
\<close>

theorem roundtrip_counterexample:
  "decode [0x00, 0x40] 0 None = Inr (ParameterExchange 0 0 (Some (1, 0)) 128 3 100 3 0) \<and>
   encode (ParameterExchange 0 0 (Some (1, 0)) 128 3 100 3 0)
     = Inr [0x00, 0x40, 0x01, 0x01, 0x10, 0x03, 0x02, 0x00, 0x03, 0x07, 0x01, 0x03] \<and>
   [0x00, 0x40, 0x01, 0x01, 0x10, 0x03, 0x02, 0x00, 0x03, 0x07, 0x01, 0x03]
     \<noteq> [0x00, 0x40 :: byte] \<and>
   encode (ParameterExchange 0 0 (Some (1, 0)) 128 3 105 3 0)
     = Inr [0x00, 0x40, 0x01, 0x01, 0x10, 0x03, 0x02, 0x00, 0x03, 0x04, 0x01, 0x0A,
            0x07, 0x01, 0x03] \<and>
   decode [0x00, 0x40, 0x01, 0x01, 0x10, 0x03, 0x02, 0x00, 0x03, 0x04, 0x01, 0x0A,
           0x07, 0x01, 0x03] 0 None
     = Inr (ParameterExchange 0 0 (Some (1, 0)) 128 3 100 3 0) \<and>
   ParameterExchange 0 0 (Some (1, 0)) 128 3 100 3 0
     \<noteq> ParameterExchange 0 0 (Some (1, 0)) 128 3 105 3 0"
  apply (intro conjI)
       apply code_simp
      apply code_simp
     apply simp
    apply code_simp
   apply code_simp
  apply simp
  done

end
